theory Spec2Isabelle
  imports Main "HOL-Library.AList"
begin

section \<open>The signaling relay\<close>

text \<open>
  The hook module keeps two process-wide tables, both keyed by the room identifier:
  \<^verbatim>\<open>SIGNALING_CHANNELS\<close>, a \<^verbatim>\<open>Set\<close> of registered callbacks per room, and
  \<^verbatim>\<open>PENDING_MESSAGES\<close>, an array of queued messages per room. A callback is a function
  object carrying a \<^verbatim>\<open>senderId\<close> property; it is modelled by an identity and that
  property. A JavaScript \<^verbatim>\<open>Set\<close> iterates in insertion order and holds no duplicates,
  so it is a list into which \<^verbatim>\<open>add\<close> appends only a new element.

  A message is an object with a \<^verbatim>\<open>type\<close> string, an optional \<^verbatim>\<open>senderId\<close>, an optional
  \<^verbatim>\<open>receiverId\<close> and fields that depend on the type. The type together with its
  fields is a tagged union here, one constructor for each type the hooks send;
  \<^verbatim>\<open>timestamp\<close> and \<^verbatim>\<open>expires\<close> are the two fields that \<^verbatim>\<open>sendSignal\<close> adds to the
  copy it queues.

  Calling a callback is an effect outside the relay. It is recorded by appending the pair
  of callback and message to the log \<open>delivered\<close>.
\<close>

datatype signal_body =
    NewPeer
  | SignalData string
  | AudioState bool
  | VideoState bool
  | ScreenShareState bool
  | NameUpdate string
  | RemoveRequest string
  | Ping
  | Pong

record signal =
  senderId :: "string option"
  receiverId :: "string option"
  body :: signal_body
  timestamp :: "int option"
  expires :: "int option"

record callback =
  cb_ident :: nat
  cb_senderId :: "string option"

record relay =
  SIGNALING_CHANNELS :: "string \<Rightarrow> callback list option"
  PENDING_MESSAGES :: "string \<Rightarrow> signal list option"
  delivered :: "(callback \<times> signal) list"

text \<open>
JavaScript truthiness of an optional string: absent and the empty string are falsy.
\<close>

definition truthy :: "string option \<Rightarrow> bool" where
  "truthy x = (case x of None \<Rightarrow> False | Some v \<Rightarrow> v \<noteq> [])"

definition set_add :: "'a \<Rightarrow> 'a list \<Rightarrow> 'a list" where
  "set_add x xs = (if x \<in> set xs then xs else xs @ [x])"

definition for_peer :: "callback \<Rightarrow> signal \<Rightarrow> bool" where
  "for_peer cb msg = (receiverId msg = cb_senderId cb \<or> \<not> truthy (receiverId msg))"

definition joinSignalingChannel :: "string \<Rightarrow> callback \<Rightarrow> relay \<Rightarrow> relay" where
  "joinSignalingChannel room cb s =
     (let chans = (case SIGNALING_CHANNELS s room of None \<Rightarrow> [] | Some cs \<Rightarrow> cs);
          s1 = s\<lparr>SIGNALING_CHANNELS := (SIGNALING_CHANNELS s)(room \<mapsto> set_add cb chans)\<rparr>
      in case PENDING_MESSAGES s1 room of
           None \<Rightarrow> s1
         | Some pend \<Rightarrow>
             if truthy (cb_senderId cb) then
               (let pendingForPeer = filter (for_peer cb) pend
                in if length pendingForPeer > 0 then
                     s1\<lparr>delivered := delivered s1 @ map (\<lambda>msg. (cb, msg)) pendingForPeer,
                        PENDING_MESSAGES :=
                          (PENDING_MESSAGES s1)(room \<mapsto> filter (\<lambda>msg. \<not> for_peer cb msg) pend)\<rparr>
                   else s1)
             else s1)"

text \<open>
The closure returned by \<^verbatim>\<open>joinSignalingChannel\<close>.
\<close>

definition unsubscribe :: "string \<Rightarrow> callback \<Rightarrow> relay \<Rightarrow> relay" where
  "unsubscribe room cb s =
     (case SIGNALING_CHANNELS s room of
        None \<Rightarrow> s
      | Some cs \<Rightarrow>
          (let cs' = removeAll cb cs
           in if length cs' = 0 then
                s\<lparr>SIGNALING_CHANNELS := (SIGNALING_CHANNELS s)(room := None),
                  PENDING_MESSAGES := (PENDING_MESSAGES s)(room := None)\<rparr>
              else s\<lparr>SIGNALING_CHANNELS := (SIGNALING_CHANNELS s)(room \<mapsto> cs')\<rparr>))"

definition accepts :: "signal \<Rightarrow> callback \<Rightarrow> bool" where
  "accepts message cb =
     (senderId message \<noteq> cb_senderId cb \<and>
      (\<not> truthy (receiverId message) \<or> receiverId message = cb_senderId cb))"

definition not_expired :: "int \<Rightarrow> signal \<Rightarrow> bool" where
  "not_expired now msg = (case expires msg of None \<Rightarrow> False | Some e \<Rightarrow> e > now)"

definition pendingMessage :: "signal \<Rightarrow> int \<Rightarrow> signal" where
  "pendingMessage message now = message\<lparr>timestamp := Some now, expires := Some (now + 60000)\<rparr>"

text \<open>
  \<^verbatim>\<open>sendSignal\<close> reads the clock only when it queues the message; the three readings of
  \<^verbatim>\<open>Date.now()\<close> in that branch happen without an interruption and are one instant
  \<open>now\<close>, in milliseconds. \<^verbatim>\<open>joinSignalingChannel\<close> and the closure it returns never
  read the clock.
\<close>

definition sendSignal :: "string \<Rightarrow> signal \<Rightarrow> int \<Rightarrow> relay \<Rightarrow> relay" where
  "sendSignal room message now s =
     (let targets = (case SIGNALING_CHANNELS s room of
                       None \<Rightarrow> []
                     | Some cs \<Rightarrow> filter (accepts message) cs);
          was_delivered = (targets \<noteq> []);
          s1 = s\<lparr>delivered := delivered s @ map (\<lambda>cb. (cb, message)) targets\<rparr>
      in if \<not> was_delivered \<and> truthy (receiverId message) then
           (let pend = (case PENDING_MESSAGES s1 room of None \<Rightarrow> [] | Some p \<Rightarrow> p)
            in s1\<lparr>PENDING_MESSAGES :=
                    (PENDING_MESSAGES s1)(room \<mapsto>
                       filter (not_expired now) (pend @ [pendingMessage message now]))\<rparr>)
         else s1)"

definition relay_init :: relay where
  "relay_init = \<lparr>SIGNALING_CHANNELS = (\<lambda>_. None), PENDING_MESSAGES = (\<lambda>_. None), delivered = []\<rparr>"

text \<open>
A run of the relay: its three entry points, in any order.
\<close>

datatype relay_op =
    Join string callback
  | Unsubscribe string callback
  | Send string signal int

fun relay_step :: "relay_op \<Rightarrow> relay \<Rightarrow> relay" where
  "relay_step (Join room cb) s = joinSignalingChannel room cb s"
| "relay_step (Unsubscribe room cb) s = unsubscribe room cb s"
| "relay_step (Send room message now) s = sendSignal room message now s"

fun relay_run :: "relay_op list \<Rightarrow> relay \<Rightarrow> relay" where
  "relay_run [] s = s"
| "relay_run (op # ops) s = relay_run ops (relay_step op s)"

definition registered :: "relay \<Rightarrow> string \<Rightarrow> callback list" where
  "registered s room = (case SIGNALING_CHANNELS s room of None \<Rightarrow> [] | Some cs \<Rightarrow> cs)"

definition pending :: "relay \<Rightarrow> string \<Rightarrow> signal list" where
  "pending s room = (case PENDING_MESSAGES s room of None \<Rightarrow> [] | Some p \<Rightarrow> p)"

text \<open>
  An operation keeps a queued message \<open>pm\<close> of room \<open>room\<close> in the queue when it is
  on another room or is a registration under another id, an unsubscription that leaves a
  callback in the room, or a send that happens before \<open>pm\<close> expires and does not queue a
  second copy of \<open>pm\<close>.
\<close>

fun keeps :: "string \<Rightarrow> signal \<Rightarrow> relay_op \<Rightarrow> relay \<Rightarrow> bool" where
  "keeps room pm (Join r cb) s = (r \<noteq> room \<or> cb_senderId cb \<noteq> receiverId pm)"
| "keeps room pm (Unsubscribe r cb) s =
     (r \<noteq> room \<or>
      (case SIGNALING_CHANNELS s room of None \<Rightarrow> True | Some cs \<Rightarrow> removeAll cb cs \<noteq> []))"
| "keeps room pm (Send r message now) s =
     (r \<noteq> room \<or> (not_expired now pm \<and> pendingMessage message now \<noteq> pm))"

fun keeps_all :: "string \<Rightarrow> signal \<Rightarrow> relay_op list \<Rightarrow> relay \<Rightarrow> bool" where
  "keeps_all room pm [] s = True"
| "keeps_all room pm (op # ops) s =
     (keeps room pm op s \<and> keeps_all room pm ops (relay_step op s))"

section \<open>Media acquisition\<close>

text \<open>
  \<^verbatim>\<open>getUserMedia\<close> is the browser's: the device is a parameter \<open>dev\<close> that gives, for the
  number of requests made before and the constraints of the request, either the name of
  the error the promise rejects with or the stream it resolves to (a stream is named by a
  number). The constraint objects of the source are named by what they ask for:
  \<open>CombinedBasic\<close> is \<^verbatim>\<open>{audio: true, video: true}\<close>, \<open>CombinedLessStrict\<close> the 640x480 at
  30 frames of \<^verbatim>\<open>initLocalStream\<close>, \<open>CombinedDetailed\<close> the combined request with
  detailed audio and video constraints, \<open>CombinedLowQuality\<close> the combined request with the
  lowered video constraints, \<open>AudioOnly\<close> and \<open>VideoOnly\<close> the two single-device requests.

  \<^verbatim>\<open>getMediaStream\<close> (the hook of \<^verbatim>\<open>src/hooks/useWebRTC.js\<close>, lines 109 to 273) returns
  the stream or the error it throws, and the trace of what it did: \<open>Invoked a v r\<close> for
  every entry into the function with its three options, \<open>Requested q\<close> for every call of
  \<^verbatim>\<open>getUserMedia\<close>. A \<^verbatim>\<open>return getMediaStream(...)\<close> inside a \<^verbatim>\<open>try\<close> block hands the
  promise of the inner call to the caller, so an error of the inner call is not handled
  again by the \<^verbatim>\<open>catch\<close> of the outer one. The counter \<^verbatim>\<open>retryAttempt\<close> is a natural
  number: the callers pass 0 or \<^verbatim>\<open>streamInitAttempts.current - 1\<close>, which is read after
  the increment.

  The variable \<^verbatim>\<open>stream\<close> is declared with \<^verbatim>\<open>let\<close> inside the \<^verbatim>\<open>try\<close> block (line 134)
  and is not in scope in the \<^verbatim>\<open>catch\<close>. The branch for an overconstrained device assigns
  to it there (line 237): the low-quality request is made and awaited, and then the
  assignment throws a \<^verbatim>\<open>ReferenceError\<close>, the file being a module and so strict code.
  The inner \<^verbatim>\<open>catch\<close> takes that error as it takes a rejection of the request, so
  whatever the device answers to the low-quality request, the stream is dropped and the
  function goes on to the audio-only call with the counter raised.
\<close>

datatype gum_error =
    NotAllowedError | PermissionDeniedError
  | NotFoundError | DevicesNotFoundError
  | NotReadableError | TrackStartError
  | OverconstrainedError
  | OtherError

datatype gum_request =
    CombinedBasic
  | CombinedLessStrict
  | CombinedDetailed
  | CombinedLowQuality
  | AudioOnly
  | VideoOnly

datatype media_failure =
    UnsupportedBrowser
  | MaxRetries
  | AccessDenied
  | NoDeviceFound
  | DeviceInUse
  | Rethrown gum_error

datatype media_event =
    Invoked bool bool nat
  | Requested gum_request

type_synonym device = "nat \<Rightarrow> gum_request \<Rightarrow> gum_error + nat"

definition requests :: "media_event list \<Rightarrow> gum_request list" where
  "requests tr = concat (map (\<lambda>e. case e of Requested q \<Rightarrow> [q] | Invoked _ _ _ \<Rightarrow> []) tr)"

definition getUserMedia :: "device \<Rightarrow> media_event list \<Rightarrow> gum_request \<Rightarrow> (gum_error + nat) \<times> media_event list" where
  "getUserMedia dev tr q = (dev (length (requests tr)) q, tr @ [Requested q])"

function getMediaStream ::
  "bool \<Rightarrow> device \<Rightarrow> media_event list \<Rightarrow> bool \<Rightarrow> bool \<Rightarrow> nat \<Rightarrow> (media_failure + nat) \<times> media_event list"
where
  "getMediaStream supported dev tr tryAudioOnly tryVideoOnly retryAttempt =
     (let tr0 = tr @ [Invoked tryAudioOnly tryVideoOnly retryAttempt] in
      if \<not> supported then (Inl UnsupportedBrowser, tr0)
      else if retryAttempt > 3 then (Inl MaxRetries, tr0)
      else if \<not> tryAudioOnly \<and> \<not> tryVideoOnly then
        (case getUserMedia dev tr0 CombinedBasic of
           (Inr stream, tr1) \<Rightarrow> (Inr stream, tr1)
         | (Inl basicErr, tr1) \<Rightarrow>
             (case getUserMedia dev tr1 CombinedDetailed of
                (Inr stream, tr2) \<Rightarrow> (Inr stream, tr2)
              | (Inl detailedErr, tr2) \<Rightarrow>
                  getMediaStream supported dev tr2 True False (retryAttempt + 1)))
      else
        (case getUserMedia dev tr0 (if tryAudioOnly then AudioOnly else VideoOnly) of
           (Inr stream, tr1) \<Rightarrow> (Inr stream, tr1)
         | (Inl err, tr1) \<Rightarrow>
             if err = NotAllowedError \<or> err = PermissionDeniedError then (Inl AccessDenied, tr1)
             else if err = NotFoundError \<or> err = DevicesNotFoundError then (Inl NoDeviceFound, tr1)
             else if err = NotReadableError \<or> err = TrackStartError then
               (if \<not> tryAudioOnly \<and> \<not> tryVideoOnly
                then getMediaStream supported dev tr1 True False (retryAttempt + 1)
                else (Inl DeviceInUse, tr1))
             else if err = OverconstrainedError then
               (case getUserMedia dev tr1 CombinedLowQuality of
                  (lowQuality, tr2) \<Rightarrow>
                    getMediaStream supported dev tr2 True False (retryAttempt + 1))
             else if \<not> tryAudioOnly \<and> \<not> tryVideoOnly
               then getMediaStream supported dev tr1 True False (retryAttempt + 1)
             else if tryAudioOnly
               then getMediaStream supported dev tr1 False True (retryAttempt + 1)
             else (Inl (Rethrown err), tr1)))"
  by pat_completeness auto
termination
  by (relation "measure (\<lambda>(supported, dev, tr, a, v, r). 4 - r)") auto

declare getMediaStream.simps [simp del]

fun retries :: "media_event list \<Rightarrow> nat list" where
  "retries [] = []"
| "retries (Invoked a v r # es) = r # retries es"
| "retries (Requested q # es) = retries es"

text \<open>
  The invocations of a trace that pass the retry guard, that is, whose counter is at
  most 3. Each of them goes on to ask the device, once or twice; the requests themselves
  are counted by \<open>requests\<close>.
\<close>

definition attempts :: "media_event list \<Rightarrow> nat list" where
  "attempts evs = filter (\<lambda>k. k \<le> 3) (retries evs)"

text \<open>
  A trace that starts at retry counter \<open>r\<close> is well counted when the counters of its
  invocations are \<open>r\<close>, \<open>r + 1\<close>, ... without a gap, at most \<open>4 - r\<close> of them pass the
  guard, and it holds at most two requests for each of those.
\<close>

definition well_counted :: "nat \<Rightarrow> media_event list \<Rightarrow> bool" where
  "well_counted r evs \<longleftrightarrow>
     retries evs = [r..<r + length (retries evs)] \<and>
     length (filter (\<lambda>k. k \<le> 3) (retries evs)) \<le> 4 - r \<and>
     length (requests evs) \<le> 2 * (4 - r)"

text \<open>
  A device on which every request fails with the same error, and the devices on which
  every request fails as busy or as overconstrained.
\<close>

definition always_fails :: "gum_error \<Rightarrow> device" where
  "always_fails e = (\<lambda>_ _. Inl e)"

definition busy_or_overconstrained :: "device \<Rightarrow> bool" where
  "busy_or_overconstrained dev \<longleftrightarrow>
     (\<forall>n q. dev n q = Inl NotReadableError \<or> dev n q = Inl TrackStartError \<or>
            dev n q = Inl OverconstrainedError)"

text \<open>
  The variant of the hook written in TypeScript (second half of
  \<^verbatim>\<open>src/hooks/useWebRTC.js\<close>, lines 788 to 966). It has no check of the browser, makes
  one combined request, and its branch for a busy device goes on from audio only to video
  only. Its \<^verbatim>\<open>stream\<close> is declared inside the \<^verbatim>\<open>try\<close> block as well, so its branch for
  an overconstrained device makes the low-quality request and then goes on to the
  audio-only call in the same way. \<^verbatim>\<open>optimizeMediaTracks\<close> applies constraints to the
  tracks of the stream it is given and swallows every error; it changes nothing that is
  modelled here.
\<close>

function getMediaStream_ts ::
  "device \<Rightarrow> media_event list \<Rightarrow> bool \<Rightarrow> bool \<Rightarrow> nat \<Rightarrow> (media_failure + nat) \<times> media_event list"
where
  "getMediaStream_ts dev tr tryAudioOnly tryVideoOnly retryAttempt =
     (let tr0 = tr @ [Invoked tryAudioOnly tryVideoOnly retryAttempt] in
      if retryAttempt > 3 then (Inl MaxRetries, tr0)
      else if \<not> tryAudioOnly \<and> \<not> tryVideoOnly then
        (case getUserMedia dev tr0 CombinedDetailed of
           (Inr stream, tr1) \<Rightarrow> (Inr stream, tr1)
         | (Inl err, tr1) \<Rightarrow> getMediaStream_ts dev tr1 True False (retryAttempt + 1))
      else
        (case getUserMedia dev tr0 (if tryAudioOnly then AudioOnly else VideoOnly) of
           (Inr stream, tr1) \<Rightarrow> (Inr stream, tr1)
         | (Inl err, tr1) \<Rightarrow>
             if err = NotAllowedError \<or> err = PermissionDeniedError then (Inl AccessDenied, tr1)
             else if err = NotFoundError \<or> err = DevicesNotFoundError then (Inl NoDeviceFound, tr1)
             else if err = NotReadableError \<or> err = TrackStartError then
               (if \<not> tryAudioOnly \<and> \<not> tryVideoOnly
                then getMediaStream_ts dev tr1 True False (retryAttempt + 1)
                else if tryAudioOnly
                then getMediaStream_ts dev tr1 False True (retryAttempt + 1)
                else (Inl DeviceInUse, tr1))
             else if err = OverconstrainedError then
               (case getUserMedia dev tr1 CombinedLowQuality of
                  (lowQuality, tr2) \<Rightarrow>
                    getMediaStream_ts dev tr2 True False (retryAttempt + 1))
             else if \<not> tryAudioOnly \<and> \<not> tryVideoOnly
               then getMediaStream_ts dev tr1 True False (retryAttempt + 1)
             else if tryAudioOnly
               then getMediaStream_ts dev tr1 False True (retryAttempt + 1)
             else (Inl (Rethrown err), tr1)))"
  by pat_completeness auto
termination
  by (relation "measure (\<lambda>(dev, tr, a, v, r). 4 - r)") auto

declare getMediaStream_ts.simps [simp del]

section \<open>The state of the hook\<close>

text \<open>
  Media streams and tracks are browser objects that the hook, its participants list and
  the peer connections share, so they live in a store: \<open>streams\<close> gives the tracks of a
  stream and \<open>tracks\<close> the kind, the \<^verbatim>\<open>enabled\<close> flag and the \<^verbatim>\<open>readyState\<close> of a
  track, both by number. A participant's \<open>p_stream\<close> and the hook's references hold the
  number of a stream. The fields \<^verbatim>\<open>id\<close>, \<^verbatim>\<open>name\<close>, \<^verbatim>\<open>isScreenSharing\<close> and \<^verbatim>\<open>stream\<close> of
  a participant are \<open>p_id\<close>, \<open>p_name\<close>, \<open>p_isScreenSharing\<close> and \<open>p_stream\<close>;
  \<^verbatim>\<open>isVideoOff\<close> and \<^verbatim>\<open>isMuted\<close> exist only on the entries some of the variants build.

  The record \<open>hook\<close> holds the React state of \<^verbatim>\<open>useWebRTC\<close> (\<open>localStream\<close> to
  \<open>isInitializing\<close>), its refs (\<open>peerConnections\<close>, a \<^verbatim>\<open>Map\<close> kept as an association
  list in insertion order, \<open>screenStream\<close>, \<open>streamInitAttempts\<close>, \<open>localStreamRef\<close>), the
  pending retry timer, the store, the relay of the module, and three logs of effects on
  the outside: the peers constructed, the peers destroyed and the device requests made.

  Every operation is one step on this state. Promises are run to their end within the
  step, with what the browser answers given as a parameter. Refs are read from the
  current state. React state is not: a callback made with \<^verbatim>\<open>useCallback\<close> reads
  \<^verbatim>\<open>isMicOn\<close>, \<^verbatim>\<open>isCameraOn\<close> or \<^verbatim>\<open>isScreenSharing\<close> as it was in the render that made
  the callback. That captured value is a parameter of the operation (\<open>isMicOn_c\<close>,
  \<open>isCameraOn_c\<close>, \<open>isScreenSharing_c\<close>); it equals the field of the current state
  when the component has rendered since the last change of the field and the caller
  holds the callback of that render.
\<close>

datatype track_kind = AudioKind | VideoKind

datatype ready_state = Live | Ended

record track =
  kind :: track_kind
  enabled :: bool
  readyState :: ready_state

record participant =
  p_id :: string
  p_name :: string
  videoEnabled :: bool
  audioEnabled :: bool
  p_isScreenSharing :: bool
  isCurrentUser :: bool
  p_stream :: "nat option"
  isVideoOff :: "bool option"
  isMuted :: "bool option"

record peer_connection =
  peerId :: string
  peer :: nat

datatype hook_error = MediaError media_failure | ScreenShareError

record props =
  roomId :: string
  userId :: string
  initialAudioEnabled :: bool
  initialVideoEnabled :: bool
  userName :: string

record hook =
  localStream :: "nat option"
  participants :: "participant list"
  isMicOn :: bool
  isCameraOn :: bool
  isScreenSharing :: bool
  error :: "hook_error option"
  isInitializing :: bool
  peerConnections :: "(string \<times> peer_connection) list"
  screenStream :: "nat option"
  streamInitAttempts :: nat
  localStreamRef :: "nat option"
  retryTimeout :: "nat option"
  tracks :: "nat \<Rightarrow> track"
  streams :: "nat \<Rightarrow> nat list"
  signaling :: relay
  created :: "(string \<times> bool) list"
  destroyed :: "nat list"
  requested :: "media_event list"

definition getAudioTracks :: "hook \<Rightarrow> nat \<Rightarrow> nat list" where
  "getAudioTracks s stream = filter (\<lambda>t. kind (tracks s t) = AudioKind) (streams s stream)"

definition getVideoTracks :: "hook \<Rightarrow> nat \<Rightarrow> nat list" where
  "getVideoTracks s stream = filter (\<lambda>t. kind (tracks s t) = VideoKind) (streams s stream)"

definition set_enabled :: "nat list \<Rightarrow> bool \<Rightarrow> (nat \<Rightarrow> track) \<Rightarrow> (nat \<Rightarrow> track)" where
  "set_enabled ts b trk = (\<lambda>t. if t \<in> set ts then (trk t)\<lparr>enabled := b\<rparr> else trk t)"

definition stop_tracks :: "nat list \<Rightarrow> (nat \<Rightarrow> track) \<Rightarrow> (nat \<Rightarrow> track)" where
  "stop_tracks ts trk = (\<lambda>t. if t \<in> set ts then (trk t)\<lparr>readyState := Ended\<rparr> else trk t)"

definition update_local :: "(participant \<Rightarrow> participant) \<Rightarrow> participant list \<Rightarrow> participant list" where
  "update_local f prev = map (\<lambda>p. if isCurrentUser p then f p else p) prev"

definition update_by_id :: "string option \<Rightarrow> (participant \<Rightarrow> participant) \<Rightarrow> participant list \<Rightarrow> participant list" where
  "update_by_id sid f prev = map (\<lambda>p. if Some (p_id p) = sid then f p else p) prev"

definition initial_hook :: "props \<Rightarrow> (nat \<Rightarrow> track) \<Rightarrow> (nat \<Rightarrow> nat list) \<Rightarrow> relay \<Rightarrow> hook" where
  "initial_hook props trk strm rel =
     \<lparr>localStream = None, participants = [], isMicOn = initialAudioEnabled props,
      isCameraOn = initialVideoEnabled props, isScreenSharing = False, error = None,
      isInitializing = True, peerConnections = [], screenStream = None,
      streamInitAttempts = 0, localStreamRef = None, retryTimeout = None,
      tracks = trk, streams = strm, signaling = rel, created = [], destroyed = [], requested = []\<rparr>"

section \<open>The hook of \<^verbatim>\<open>src/hooks/useWebRTC.js\<close>\<close>

text \<open>
  \<^verbatim>\<open>initLocalStream\<close> (lines 287 to 413) first asks the device twice itself and then
  falls back to \<^verbatim>\<open>getMediaStream\<close>. Where the browser has no \<^verbatim>\<open>mediaDevices\<close> the two
  direct calls throw before any request is made. The component is taken to be mounted.
\<close>

definition acquire :: "bool \<Rightarrow> device \<Rightarrow> nat \<Rightarrow> (media_failure + nat) \<times> media_event list" where
  "acquire supported dev n =
     (if \<not> supported then getMediaStream supported dev [] (n > 1) (n > 2) (n - 1)
      else case getUserMedia dev [] CombinedBasic of
             (Inr stream, tr1) \<Rightarrow> (Inr stream, tr1)
           | (Inl basicErr, tr1) \<Rightarrow>
               (case getUserMedia dev tr1 CombinedLessStrict of
                  (Inr stream, tr2) \<Rightarrow> (Inr stream, tr2)
                | (Inl exactErr, tr2) \<Rightarrow>
                    getMediaStream supported dev tr2 (n > 1) (n > 2) (n - 1)))"

definition initLocalStream :: "props \<Rightarrow> bool \<Rightarrow> device \<Rightarrow> hook \<Rightarrow> hook" where
  "initLocalStream props supported dev s =
     (let s1 = s\<lparr>isInitializing := True, streamInitAttempts := streamInitAttempts s + 1\<rparr>
      in case acquire supported dev (streamInitAttempts s1) of
           (Inr stream, tr) \<Rightarrow>
             (let hasVideoTracks = (length (getVideoTracks s1 stream) > 0);
                  hasAudioTracks = (length (getAudioTracks s1 stream) > 0)
              in s1\<lparr>requested := requested s1 @ tr,
                    localStreamRef := Some stream,
                    localStream := Some stream,
                    error := None,
                    tracks := set_enabled (getVideoTracks s1 stream) (initialVideoEnabled props)
                                (set_enabled (getAudioTracks s1 stream) (initialAudioEnabled props)
                                   (tracks s1)),
                    participants :=
                      [\<lparr>p_id = userId props, p_name = userName props,
                        videoEnabled = (hasVideoTracks \<and> initialVideoEnabled props),
                        audioEnabled = (hasAudioTracks \<and> initialAudioEnabled props),
                        p_isScreenSharing = False, isCurrentUser = True,
                        p_stream = Some stream,
                        isVideoOff = Some (\<not> (hasVideoTracks \<and> initialVideoEnabled props)),
                        isMuted = Some (\<not> (hasAudioTracks \<and> initialAudioEnabled props))\<rparr>],
                    isCameraOn := (hasVideoTracks \<and> initialVideoEnabled props),
                    isMicOn := (hasAudioTracks \<and> initialAudioEnabled props),
                    isInitializing := False\<rparr>)
         | (Inl failure, tr) \<Rightarrow>
             s1\<lparr>requested := requested s1 @ tr,
                error := Some (MediaError failure),
                retryTimeout := (if streamInitAttempts s1 < 3
                                 then Some (2 ^ streamInitAttempts s1 * 1000)
                                 else retryTimeout s1),
                isInitializing := False\<rparr>)"

text \<open>
  One initialisation cycle. \<^verbatim>\<open>initLocalStream\<close> runs, and when it fails with fewer than
  three runs counted, its \<^verbatim>\<open>catch\<close> sets a timer that runs it again (lines 398 to 406);
  the counter \<^verbatim>\<open>streamInitAttempts\<close> is a ref and is never reset. The timers are taken
  to fire. The device may answer differently in every run: \<open>devs n\<close> is the device during
  run number \<open>n\<close>.
\<close>

function init_cycle :: "props \<Rightarrow> bool \<Rightarrow> (nat \<Rightarrow> device) \<Rightarrow> hook \<Rightarrow> hook" where
  "init_cycle props supported devs s =
     (let n = Suc (streamInitAttempts s);
          s1 = initLocalStream props supported (devs n) s
      in if isl (fst (acquire supported (devs n) n)) \<and> streamInitAttempts s1 < 3
         then init_cycle props supported devs s1
         else s1)"
  by pat_completeness auto
termination
  by (relation "measure (\<lambda>(props, supported, devs, s). 3 - streamInitAttempts s)")
     (auto simp: initLocalStream_def Let_def split: prod.splits sum.splits)

declare init_cycle.simps [simp del]

definition state_signal :: "props \<Rightarrow> signal_body \<Rightarrow> signal" where
  "state_signal props b =
     \<lparr>senderId = Some (userId props), receiverId = None, body = b,
      timestamp = None, expires = None\<rparr>"

text \<open>
  \<^verbatim>\<open>toggleMic\<close> (lines 461 to 490) and \<^verbatim>\<open>toggleCamera\<close> (lines 493 to 522). The new
  state is the negation of the captured \<^verbatim>\<open>isMicOn\<close> or \<^verbatim>\<open>isCameraOn\<close>; the stream is read
  from the ref.
\<close>

definition toggleMic :: "props \<Rightarrow> bool \<Rightarrow> int \<Rightarrow> hook \<Rightarrow> hook" where
  "toggleMic props isMicOn_c now s =
     (case localStreamRef s of
        None \<Rightarrow> s
      | Some ls \<Rightarrow>
          (let audioTracks = getAudioTracks s ls
           in if length audioTracks > 0 then
                (let newState = (\<not> isMicOn_c)
                 in s\<lparr>tracks := set_enabled audioTracks newState (tracks s),
                       isMicOn := newState,
                       participants :=
                         update_local (\<lambda>p. p\<lparr>audioEnabled := newState, isMuted := Some (\<not> newState)\<rparr>)
                           (participants s),
                       signaling :=
                         sendSignal (roomId props) (state_signal props (AudioState newState)) now
                           (signaling s)\<rparr>)
              else s))"

definition toggleCamera :: "props \<Rightarrow> bool \<Rightarrow> int \<Rightarrow> hook \<Rightarrow> hook" where
  "toggleCamera props isCameraOn_c now s =
     (case localStreamRef s of
        None \<Rightarrow> s
      | Some ls \<Rightarrow>
          (let videoTracks = getVideoTracks s ls
           in if length videoTracks > 0 then
                (let newState = (\<not> isCameraOn_c)
                 in s\<lparr>tracks := set_enabled videoTracks newState (tracks s),
                       isCameraOn := newState,
                       participants :=
                         update_local (\<lambda>p. p\<lparr>videoEnabled := newState, isVideoOff := Some (\<not> newState)\<rparr>)
                           (participants s),
                       signaling :=
                         sendSignal (roomId props) (state_signal props (VideoState newState)) now
                           (signaling s)\<rparr>)
              else s))"

text \<open>
  \<^verbatim>\<open>toggleScreenShare\<close> (lines 525 to 594). It starts or stops by the captured
  \<^verbatim>\<open>isScreenSharing\<close>. The second parameter is what \<^verbatim>\<open>getDisplayMedia\<close> answers; it is
  read only when sharing starts. A display stream without a video track makes the
  assignment of \<^verbatim>\<open>onended\<close> throw after the state has been set, and the \<^verbatim>\<open>catch\<close>
  records the error.
\<close>

datatype display_error = DisplayNotAllowed | DisplayUnsupported

definition toggleScreenShare :: "bool \<Rightarrow> display_error + nat \<Rightarrow> hook \<Rightarrow> hook" where
  "toggleScreenShare isScreenSharing_c outcome s =
     (if \<not> isScreenSharing_c then
        (case outcome of
           Inl err \<Rightarrow> s\<lparr>error := Some ScreenShareError\<rparr>
         | Inr stream \<Rightarrow>
             (let s1 = s\<lparr>screenStream := Some stream,
                         tracks := stop_tracks (getAudioTracks s stream)
                                     (set_enabled (getAudioTracks s stream) False (tracks s)),
                         participants :=
                           update_local (\<lambda>p. p\<lparr>p_isScreenSharing := True, p_stream := Some stream\<rparr>)
                             (participants s),
                         isScreenSharing := True\<rparr>
              in if getVideoTracks s1 stream = [] then s1\<lparr>error := Some ScreenShareError\<rparr>
                 else s1))
      else
        (let s1 = (case screenStream s of
                     None \<Rightarrow> s
                   | Some sc \<Rightarrow> s\<lparr>tracks := stop_tracks (streams s sc) (tracks s),
                                   screenStream := None\<rparr>);
             s2 = (case localStreamRef s1 of
                     None \<Rightarrow> s1
                   | Some ls \<Rightarrow>
                       s1\<lparr>participants :=
                            update_local (\<lambda>p. p\<lparr>p_isScreenSharing := False, p_stream := Some ls\<rparr>)
                              (participants s1)\<rparr>)
         in s2\<lparr>isScreenSharing := False\<rparr>))"

text \<open>
  The handler that a start installs on the first video track of the display stream, for
  the stop button of the browser (lines 560 to 562). It calls the \<^verbatim>\<open>toggleScreenShare\<close>
  of the render in which the share was started, and that callback holds
  \<^verbatim>\<open>isScreenSharing = false\<close>.
\<close>

definition onended :: "display_error + nat \<Rightarrow> hook \<Rightarrow> hook" where
  "onended outcome s = toggleScreenShare False outcome s"

text \<open>
  The demo participants (lines 626 to 679), \<^verbatim>\<open>removeParticipant\<close> (lines 692 to 703)
  and the cleanup of the initialisation effect (lines 429 to 450), which runs when the
  component unmounts or a dependency of the effect changes.
\<close>

definition fakeParticipants :: "nat option \<Rightarrow> participant list" where
  "fakeParticipants fakeStream =
     [\<lparr>p_id = ''user1'', p_name = ''John Doe'', videoEnabled = True, audioEnabled = True,
       p_isScreenSharing = False, isCurrentUser = False, p_stream = fakeStream,
       isVideoOff = Some False, isMuted = Some False\<rparr>,
      \<lparr>p_id = ''user2'', p_name = ''Jane Smith'', videoEnabled = True, audioEnabled = False,
       p_isScreenSharing = False, isCurrentUser = False, p_stream = fakeStream,
       isVideoOff = Some False, isMuted = Some True\<rparr>]"

definition simulateOtherParticipants :: "nat option \<Rightarrow> hook \<Rightarrow> hook" where
  "simulateOtherParticipants fakeStream s =
     s\<lparr>participants :=
         (case find isCurrentUser (participants s) of
            Some currentUser \<Rightarrow> currentUser # fakeParticipants fakeStream
          | None \<Rightarrow> fakeParticipants fakeStream)\<rparr>"

definition removeParticipant :: "string \<Rightarrow> hook \<Rightarrow> hook" where
  "removeParticipant participantId s =
     (let s1 = s\<lparr>participants := filter (\<lambda>p. p_id p \<noteq> participantId) (participants s)\<rparr>
      in case map_of (peerConnections s1) participantId of
           None \<Rightarrow> s1
         | Some peerConnection \<Rightarrow>
             s1\<lparr>destroyed := destroyed s1 @ [peer peerConnection],
                peerConnections := AList.delete participantId (peerConnections s1)\<rparr>)"

definition cleanup :: "hook \<Rightarrow> hook" where
  "cleanup s =
     (let s1 = (case localStreamRef s of
                  None \<Rightarrow> s
                | Some ls \<Rightarrow> s\<lparr>tracks := stop_tracks (streams s ls) (tracks s),
                                localStreamRef := None\<rparr>);
          s2 = (case screenStream s1 of
                  None \<Rightarrow> s1
                | Some sc \<Rightarrow> s1\<lparr>tracks := stop_tracks (streams s1 sc) (tracks s1),
                                 screenStream := None\<rparr>)
      in s2\<lparr>retryTimeout := None,
            destroyed := destroyed s2 @ map (\<lambda>(k, c). peer c) (peerConnections s2)\<rparr>)"

section \<open>Peers and signals: the other variants of the hook\<close>

text \<open>
  The hook of \<^verbatim>\<open>src/unnamed/part_009\<close> and the TypeScript variant connect to peers.
  \<^verbatim>\<open>createPeer\<close> constructs a peer and stores its record; the handlers it installs on the
  peer are \<open>onStream\<close>, \<open>onClose\<close> and \<open>onError\<close> here, each for the peer id it was
  installed with (\<^verbatim>\<open>part_009\<close> lines 1346 to 1397, the same text in the TypeScript
  variant at lines 1512 to 1563). \<open>signalCallback\<close> and \<open>handleSignals\<close> are the two
  callbacks the hook registers with the relay (\<^verbatim>\<open>part_009\<close> lines 1212 to 1241 and 1449
  to 1504). What a peer does with a signal it is handed is inside the peer library and
  changes nothing here. A message without a \<^verbatim>\<open>senderId\<close> is none the hooks send, and
  \<open>signalCallback\<close> leaves the state as it is for one.
\<close>

definition createPeer :: "string \<Rightarrow> bool \<Rightarrow> hook \<Rightarrow> hook" where
  "createPeer pid initiator s =
     s\<lparr>created := created s @ [(pid, initiator)],
       peerConnections :=
         AList.update pid \<lparr>peerId = pid, peer = length (created s)\<rparr> (peerConnections s)\<rparr>"

definition signalCallback :: "props \<Rightarrow> signal \<Rightarrow> hook \<Rightarrow> hook" where
  "signalCallback props message s =
     (case senderId message of
        None \<Rightarrow> s
      | Some sender \<Rightarrow>
          (case body message of
             NewPeer \<Rightarrow> if sender \<noteq> userId props then createPeer sender True s else s
           | SignalData sig \<Rightarrow>
               if receiverId message = Some (userId props) then
                 (case map_of (peerConnections s) sender of
                    Some peerConnection \<Rightarrow> s
                  | None \<Rightarrow> if sig = ''offer'' then createPeer sender False s else s)
               else s
           | _ \<Rightarrow> s))"

definition onStream :: "string \<Rightarrow> nat \<Rightarrow> hook \<Rightarrow> hook" where
  "onStream pid remoteStream s =
     s\<lparr>participants :=
         (let prev = participants s
          in if \<exists>p \<in> set prev. p_id p = pid then
               map (\<lambda>p. if p_id p = pid
                        then p\<lparr>p_stream := Some remoteStream, videoEnabled := True,
                               audioEnabled := True\<rparr>
                        else p) prev
             else prev @
               [\<lparr>p_id = pid, p_name = ''Peer '' @ take 5 pid, videoEnabled = True,
                 audioEnabled = True, p_isScreenSharing = False, isCurrentUser = False,
                 p_stream = Some remoteStream, isVideoOff = None, isMuted = None\<rparr>])\<rparr>"

definition onClose :: "string \<Rightarrow> hook \<Rightarrow> hook" where
  "onClose pid s =
     s\<lparr>peerConnections := AList.delete pid (peerConnections s),
       participants := filter (\<lambda>p. p_id p \<noteq> pid) (participants s)\<rparr>"

definition onError :: "string \<Rightarrow> hook \<Rightarrow> hook" where
  "onError pid s =
     s\<lparr>peerConnections := AList.delete pid (peerConnections s),
       participants := filter (\<lambda>p. p_id p \<noteq> pid) (participants s)\<rparr>"

definition handleSignals :: "props \<Rightarrow> int \<Rightarrow> signal \<Rightarrow> hook \<Rightarrow> hook" where
  "handleSignals props now message s =
     (case body message of
        RemoveRequest removedId \<Rightarrow>
          if removedId = userId props then
            s\<lparr>destroyed := destroyed s @ map (\<lambda>(k, c). peer c) (peerConnections s),
              peerConnections := []\<rparr>
          else s
      | AudioState b \<Rightarrow>
          if truthy (senderId message) then
            s\<lparr>participants :=
                update_by_id (senderId message) (\<lambda>p. p\<lparr>audioEnabled := b\<rparr>) (participants s)\<rparr>
          else s
      | VideoState b \<Rightarrow>
          if truthy (senderId message) then
            s\<lparr>participants :=
                update_by_id (senderId message) (\<lambda>p. p\<lparr>videoEnabled := b\<rparr>) (participants s)\<rparr>
          else s
      | ScreenShareState b \<Rightarrow>
          if truthy (senderId message) then
            s\<lparr>participants :=
                update_by_id (senderId message) (\<lambda>p. p\<lparr>p_isScreenSharing := b\<rparr>) (participants s)\<rparr>
          else s
      | NameUpdate n \<Rightarrow>
          if truthy (senderId message) then
            s\<lparr>participants :=
                update_by_id (senderId message) (\<lambda>p. p\<lparr>p_name := n\<rparr>) (participants s)\<rparr>
          else s
      | Ping \<Rightarrow>
          s\<lparr>signaling :=
              sendSignal (roomId props)
                \<lparr>senderId = Some (userId props), receiverId = senderId message, body = Pong,
                 timestamp = Some now, expires = None\<rparr>
                now (signaling s)\<rparr>
      | _ \<Rightarrow> s)"

definition removeParticipant_ts :: "props \<Rightarrow> int \<Rightarrow> string \<Rightarrow> hook \<Rightarrow> hook" where
  "removeParticipant_ts props now participantId s =
     removeParticipant participantId
       (s\<lparr>signaling :=
            sendSignal (roomId props) (state_signal props (RemoveRequest participantId)) now
              (signaling s)\<rparr>)"

text \<open>
  \<^verbatim>\<open>toggleMic\<close> and \<^verbatim>\<open>toggleCamera\<close> of the TypeScript variant (lines 1193 to 1296):
  where the track is missing and the captured state of the device is off, they ask for a
  capture of the one device and add its first track to the local stream.
\<close>

definition toggleMic_ts :: "bool \<Rightarrow> device \<Rightarrow> hook \<Rightarrow> hook" where
  "toggleMic_ts isMicOn_c dev s =
     (case localStreamRef s of
        None \<Rightarrow> s
      | Some ls \<Rightarrow>
          (let audioTracks = getAudioTracks s ls
           in if length audioTracks > 0 then
                (let newState = (\<not> isMicOn_c)
                 in s\<lparr>tracks := set_enabled audioTracks newState (tracks s),
                       isMicOn := newState,
                       participants :=
                         update_local (\<lambda>p. p\<lparr>audioEnabled := newState\<rparr>) (participants s)\<rparr>)
              else if \<not> isMicOn_c then
                (case getMediaStream_ts dev [] True False 0 of
                   (Inl err, tr) \<Rightarrow> s\<lparr>requested := requested s @ tr\<rparr>
                 | (Inr audioStream, tr) \<Rightarrow>
                     (case getAudioTracks s audioStream of
                        [] \<Rightarrow> s\<lparr>requested := requested s @ tr\<rparr>
                      | audioTrack # _ \<Rightarrow>
                          s\<lparr>requested := requested s @ tr,
                            streams := (streams s)(ls := set_add audioTrack (streams s ls)),
                            isMicOn := True,
                            participants :=
                              update_local (\<lambda>p. p\<lparr>audioEnabled := True, p_stream := Some ls\<rparr>)
                                (participants s)\<rparr>))
              else s))"

definition toggleCamera_ts :: "bool \<Rightarrow> device \<Rightarrow> hook \<Rightarrow> hook" where
  "toggleCamera_ts isCameraOn_c dev s =
     (case localStreamRef s of
        None \<Rightarrow> s
      | Some ls \<Rightarrow>
          (let videoTracks = getVideoTracks s ls
           in if length videoTracks > 0 then
                (let newState = (\<not> isCameraOn_c)
                 in s\<lparr>tracks := set_enabled videoTracks newState (tracks s),
                       isCameraOn := newState,
                       participants :=
                         update_local (\<lambda>p. p\<lparr>videoEnabled := newState\<rparr>) (participants s)\<rparr>)
              else if \<not> isCameraOn_c then
                (case getMediaStream_ts dev [] False True 0 of
                   (Inl err, tr) \<Rightarrow> s\<lparr>requested := requested s @ tr\<rparr>
                 | (Inr videoStream, tr) \<Rightarrow>
                     (case getVideoTracks s videoStream of
                        [] \<Rightarrow> s\<lparr>requested := requested s @ tr\<rparr>
                      | videoTrack # _ \<Rightarrow>
                          s\<lparr>requested := requested s @ tr,
                            streams := (streams s)(ls := set_add videoTrack (streams s ls)),
                            isCameraOn := True,
                            participants :=
                              update_local (\<lambda>p. p\<lparr>videoEnabled := True, p_stream := Some ls\<rparr>)
                                (participants s)\<rparr>))
              else s))"

section \<open>Reachable states\<close>

text \<open>
  The states of the hook of \<^verbatim>\<open>src/hooks/useWebRTC.js\<close>: a successful initialisation
  from any state, followed by its operations in any order, each toggle with any captured
  value (the callback of any earlier render). A display capture is a new stream, so it
  shares no track with the local stream.
\<close>

definition fresh_display :: "hook \<Rightarrow> display_error + nat \<Rightarrow> bool" where
  "fresh_display s outcome =
     (case outcome of
        Inl err \<Rightarrow> True
      | Inr stream \<Rightarrow>
          (case localStreamRef s of
             None \<Rightarrow> True
           | Some ls \<Rightarrow> set (streams s stream) \<inter> set (streams s ls) = {}))"

inductive js_reachable :: "hook \<Rightarrow> bool" where
  js_init: "fst (acquire supported dev (Suc (streamInitAttempts s))) = Inr stream \<Longrightarrow>
            js_reachable (initLocalStream props supported dev s)"
| js_mic: "js_reachable s \<Longrightarrow> js_reachable (toggleMic props c now s)"
| js_camera: "js_reachable s \<Longrightarrow> js_reachable (toggleCamera props c now s)"
| js_share: "js_reachable s \<Longrightarrow> fresh_display s outcome \<Longrightarrow>
             js_reachable (toggleScreenShare c outcome s)"
| js_remove: "js_reachable s \<Longrightarrow> js_reachable (removeParticipant pid s)"
| js_simulate: "js_reachable s \<Longrightarrow> js_reachable (simulateOtherParticipants fs s)"
| js_cleanup: "js_reachable s \<Longrightarrow> js_reachable (cleanup s)"

text \<open>
  The states of a session with fixed props, over the operations of all the variants.
  Here \<^verbatim>\<open>removeParticipant\<close> and the handlers for a closed or failed peer are taken for
  ids other than the user's own: the callers of \<^verbatim>\<open>removeParticipant\<close> offer it for
  participants other than the current user (\<^verbatim>\<open>Dashboard.jsx\<close>, \<^verbatim>\<open>ParticipantList.jsx\<close>),
  and peers are created for other ids.
\<close>

inductive reachable :: "props \<Rightarrow> hook \<Rightarrow> bool" for props where
  r_init: "fst (acquire supported dev (Suc (streamInitAttempts s))) = Inr stream \<Longrightarrow>
           reachable props (initLocalStream props supported dev s)"
| r_mic: "reachable props s \<Longrightarrow> reachable props (toggleMic props c now s)"
| r_camera: "reachable props s \<Longrightarrow> reachable props (toggleCamera props c now s)"
| r_mic_ts: "reachable props s \<Longrightarrow> reachable props (toggleMic_ts c dev s)"
| r_camera_ts: "reachable props s \<Longrightarrow> reachable props (toggleCamera_ts c dev s)"
| r_share: "reachable props s \<Longrightarrow> reachable props (toggleScreenShare c outcome s)"
| r_simulate: "reachable props s \<Longrightarrow> reachable props (simulateOtherParticipants fs s)"
| r_remove: "reachable props s \<Longrightarrow> pid \<noteq> userId props \<Longrightarrow>
             reachable props (removeParticipant pid s)"
| r_remove_ts: "reachable props s \<Longrightarrow> pid \<noteq> userId props \<Longrightarrow>
                reachable props (removeParticipant_ts props now pid s)"
| r_stream: "reachable props s \<Longrightarrow> reachable props (onStream pid remoteStream s)"
| r_close: "reachable props s \<Longrightarrow> pid \<noteq> userId props \<Longrightarrow> reachable props (onClose pid s)"
| r_error: "reachable props s \<Longrightarrow> pid \<noteq> userId props \<Longrightarrow> reachable props (onError pid s)"
| r_callback: "reachable props s \<Longrightarrow> reachable props (signalCallback props message s)"
| r_signals: "reachable props s \<Longrightarrow> reachable props (handleSignals props now message s)"
| r_cleanup: "reachable props s \<Longrightarrow> reachable props (cleanup s)"

text \<open>
  Two invariants: the microphone state agrees with the audio tracks of the local stream
  and with the local entries of the participants list; the list has one local entry, and
  it carries the user's id.
\<close>

definition mic_coherent :: "hook \<Rightarrow> bool" where
  "mic_coherent s \<longleftrightarrow>
     (\<forall>ls. localStreamRef s = Some ls \<longrightarrow>
        (\<forall>t \<in> set (getAudioTracks s ls). enabled (tracks s t) = isMicOn s)) \<and>
     (\<forall>p \<in> set (participants s). isCurrentUser p \<longrightarrow> audioEnabled p = isMicOn s)"

definition one_local :: "props \<Rightarrow> participant list \<Rightarrow> bool" where
  "one_local props ps \<longleftrightarrow>
     length (filter isCurrentUser ps) = 1 \<and>
     (\<forall>p \<in> set ps. isCurrentUser p \<longrightarrow> p_id p = userId props)"

section \<open>Examples\<close>

text \<open>
Two callbacks and two messages.
\<close>

definition alice_cb :: callback where "alice_cb = \<lparr>cb_ident = 1, cb_senderId = Some ''alice''\<rparr>"

definition bob_cb :: callback where "bob_cb = \<lparr>cb_ident = 2, cb_senderId = Some ''bob''\<rparr>"

definition offer_to_bob :: signal where
  "offer_to_bob = \<lparr>senderId = Some ''alice'', receiverId = Some ''bob'', body = SignalData ''offer'',
     timestamp = None, expires = None\<rparr>"

definition ping_all :: signal where
  "ping_all = \<lparr>senderId = Some ''alice'', receiverId = None, body = Ping,
     timestamp = None, expires = None\<rparr>"

text \<open>
  A store: stream 1 is a camera with a microphone (tracks 10 and 11), stream 2 a display
  capture with a video track 20 and an audio track 21, stream 3 a capture of the camera
  alone and stream 4 a capture of the microphone alone. On the first device every request
  succeeds; on the second only the camera alone can be captured.
\<close>

definition demo_props :: props where
  "demo_props = \<lparr>roomId = ''room'', userId = ''me'', initialAudioEnabled = True,
                  initialVideoEnabled = True, userName = ''Me''\<rparr>"

definition demo_tracks :: "nat \<Rightarrow> track" where
  "demo_tracks t =
     \<lparr>kind = (if t = 10 \<or> t = 13 \<or> t = 21 then AudioKind else VideoKind), enabled = True,
      readyState = Live\<rparr>"

definition demo_streams :: "nat \<Rightarrow> nat list" where
  "demo_streams st =
     (if st = 1 then [10, 11] else if st = 2 then [20, 21] else if st = 3 then [12]
      else if st = 4 then [13] else [])"

definition demo_hook :: hook where
  "demo_hook = initial_hook demo_props demo_tracks demo_streams relay_init"

definition working_dev :: device where
  "working_dev = (\<lambda>n q. case q of AudioOnly \<Rightarrow> Inr 4 | VideoOnly \<Rightarrow> Inr 3 | _ \<Rightarrow> Inr 1)"

definition no_mic_dev :: device where
  "no_mic_dev = (\<lambda>n q. if q = VideoOnly then Inr 3 else Inl OtherError)"

definition joined :: hook where
  "joined = initLocalStream demo_props True working_dev demo_hook"

definition joined_without_mic :: hook where
  "joined_without_mic = initLocalStream demo_props True no_mic_dev demo_hook"

text \<open>
The session of stream 1 after bob and carol have announced themselves and sent their streams.
\<close>

definition with_peers :: hook where
  "with_peers =
     onStream ''carol'' 6 (onStream ''bob'' 5
       (signalCallback demo_props
          \<lparr>senderId = Some ''carol'', receiverId = None, body = NewPeer,
           timestamp = None, expires = None\<rparr>
          (signalCallback demo_props
             \<lparr>senderId = Some ''bob'', receiverId = None, body = NewPeer,
              timestamp = None, expires = None\<rparr> joined)))"

section \<open>Properties of the signaling relay\<close>

lemma count_list_filter: "count_list (filter P xs) x = (if P x then count_list xs x else 0)"
  by (induction xs) auto

lemma count_list_map_Pair: "count_list (map (Pair c) xs) (c, x) = count_list xs x"
  by (induction xs) auto

lemma count_list_map_Pair_other: "c \<noteq> d \<Longrightarrow> count_list (map (Pair c) xs) (d, x) = 0"
  by (induction xs) auto

lemma receiverId_pendingMessage [simp]: "receiverId (pendingMessage m t) = receiverId m"
  by (simp add: pendingMessage_def)

lemma not_expired_pendingMessage [simp]: "not_expired t (pendingMessage m t)"
  by (simp add: pendingMessage_def not_expired_def)

lemma send_queues:
  assumes "truthy (receiverId m)"
      and "\<forall>c \<in> set (registered s room). cb_senderId c \<noteq> receiverId m"
  shows "pending (sendSignal room m t s) room =
           filter (not_expired t) (pending s room @ [pendingMessage m t])"
    and "delivered (sendSignal room m t s) = delivered s"
proof -
  have "filter (accepts m) (registered s room) = []"
    using assms by (auto simp: filter_empty_conv accepts_def)
  then show "pending (sendSignal room m t s) room =
           filter (not_expired t) (pending s room @ [pendingMessage m t])"
    and "delivered (sendSignal room m t s) = delivered s"
    using assms(1)
    by (auto simp: sendSignal_def registered_def pending_def Let_def split: option.splits)
qed

lemma keeps_count:
  assumes "keeps room pm op s" and "truthy (receiverId pm)"
  shows "count_list (pending (relay_step op s) room) pm = count_list (pending s room) pm"
proof (cases op)
  case (Join r cb)
  then show ?thesis using assms
    by (auto simp: joinSignalingChannel_def pending_def Let_def for_peer_def count_list_filter
             split: option.splits)
next
  case (Unsubscribe r cb)
  then show ?thesis using assms
    by (auto simp: unsubscribe_def pending_def registered_def Let_def split: option.splits)
next
  case (Send r m' now)
  then show ?thesis using assms
    by (auto simp: sendSignal_def pending_def Let_def count_list_filter split: option.splits)
qed

lemma keeps_all_count:
  "keeps_all room pm ops s \<Longrightarrow> truthy (receiverId pm) \<Longrightarrow>
   count_list (pending (relay_run ops s) room) pm = count_list (pending s room) pm"
proof (induction ops arbitrary: s)
  case Nil
  then show ?case by simp
next
  case (Cons op ops)
  then show ?case using keeps_count [of room pm op s] by simp
qed

lemma join_flush:
  assumes "truthy (cb_senderId cb)"
  shows "delivered (joinSignalingChannel room cb s) =
           delivered s @ map (Pair cb) (filter (for_peer cb) (pending s room))"
    and "pending (joinSignalingChannel room cb s) room =
           filter (\<lambda>msg. \<not> for_peer cb msg) (pending s room)"
  using assms
  by (auto simp: joinSignalingChannel_def pending_def Let_def filter_empty_conv
           split: option.splits intro!: filter_id_conv[THEN iffD2, symmetric])

text \<open>
  Claim C1, as the code has it. A message with a non-empty \<^verbatim>\<open>receiverId\<close> is sent at
  time \<open>t\<close> while no callback registered in the room carries that id, so \<^verbatim>\<open>sendSignal\<close>
  queues a copy \<open>pm\<close> of it, and that copy is not in the queue already. If every
  operation of the relay up to the receiver's registration keeps \<open>pm\<close> queued (no
  unsubscription empties the room, no callback registers under the receiver's id, and
  every send on the room happens before \<open>pm\<close> expires), then the registration of a
  callback under the receiver's id delivers \<open>pm\<close> to that callback exactly once, removes
  it from the queue, and no later registration delivers it again.
\<close>

theorem queued_message_delivered_once:
  assumes directed: "truthy (receiverId m)"
      and absent: "\<forall>c \<in> set (registered s room). cb_senderId c \<noteq> receiverId m"
      and new: "pendingMessage m t \<notin> set (pending s room)"
      and quiet: "keeps_all room (pendingMessage m t) ops (sendSignal room m t s)"
      and receiver: "cb_senderId cb = receiverId m"
  shows "let pm = pendingMessage m t;
             s1 = relay_run ops (sendSignal room m t s);
             s2 = joinSignalingChannel room cb s1
         in count_list (delivered s2) (cb, pm) = count_list (delivered s1) (cb, pm) + 1 \<and>
            pm \<notin> set (pending s2 room) \<and>
            (\<forall>cb'. count_list (delivered (joinSignalingChannel room cb' s2)) (cb', pm) =
                   count_list (delivered s2) (cb', pm))"
proof -
  define pm where "pm = pendingMessage m t"
  define s1 where "s1 = relay_run ops (sendSignal room m t s)"
  define s2 where "s2 = joinSignalingChannel room cb s1"
  have rpm: "truthy (receiverId pm)" "receiverId pm = receiverId m"
    using directed by (simp_all add: pm_def)
  have "count_list (pending (sendSignal room m t s) room) pm = 1"
    using send_queues(1) [OF directed absent, of t] new
    by (simp add: count_list_filter pm_def count_list_0_iff)
  then have queued: "count_list (pending s1 room) pm = 1"
    using keeps_all_count [OF quiet [folded pm_def] rpm(1)] by (simp add: s1_def)
  have tr: "truthy (cb_senderId cb)"
    using receiver directed by simp
  have fp: "for_peer cb pm"
    using receiver rpm by (simp add: for_peer_def)
  have once: "count_list (delivered s2) (cb, pm) = count_list (delivered s1) (cb, pm) + 1"
    using join_flush(1) [OF tr, of room s1] queued fp
    by (simp add: s2_def count_list_map_Pair count_list_filter)
  have gone: "pm \<notin> set (pending s2 room)"
    using join_flush(2) [OF tr, of room s1] fp by (simp add: s2_def)
  have later: "count_list (delivered (joinSignalingChannel room cb' s2)) (cb', pm) =
                 count_list (delivered s2) (cb', pm)" for cb'
  proof (cases "truthy (cb_senderId cb')")
    case True
    show ?thesis
      using join_flush(1) [OF True, of room s2] gone
      by (simp add: count_list_map_Pair count_list_filter count_list_0_iff)
  next
    case False
    then have "delivered (joinSignalingChannel room cb' s2) = delivered s2"
      by (simp add: joinSignalingChannel_def Let_def split: option.splits)
    then show ?thesis by simp
  qed
  show ?thesis
    using once gone later unfolding Let_def pm_def s1_def s2_def by blast
qed

theorem queued_message_delivered_once_witness:
  "truthy (receiverId offer_to_bob) \<and>
   list_all (\<lambda>c. cb_senderId c \<noteq> receiverId offer_to_bob)
     (registered (joinSignalingChannel ''r'' alice_cb relay_init) ''r'') \<and>
   keeps_all ''r'' (pendingMessage offer_to_bob 0)
     [Send ''r'' (offer_to_bob\<lparr>receiverId := Some ''carol''\<rparr>) 59999]
     (sendSignal ''r'' offer_to_bob 0 (joinSignalingChannel ''r'' alice_cb relay_init)) \<and>
   count_list (delivered (relay_run
       [Join ''r'' alice_cb, Send ''r'' offer_to_bob 0,
        Send ''r'' (offer_to_bob\<lparr>receiverId := Some ''carol''\<rparr>) 59999, Join ''r'' bob_cb]
       relay_init)) (bob_cb, pendingMessage offer_to_bob 0) = 1"
proof -
  let ?s = "joinSignalingChannel ''r'' alice_cb relay_init"
  let ?ops = "[Send ''r'' (offer_to_bob\<lparr>receiverId := Some ''carol''\<rparr>) 59999]"
  have a: "truthy (receiverId offer_to_bob)"
    by (simp add: offer_to_bob_def truthy_def)
  have b: "\<forall>c \<in> set (registered ?s ''r''). cb_senderId c \<noteq> receiverId offer_to_bob"
    by (simp add: joinSignalingChannel_def relay_init_def registered_def set_add_def
        offer_to_bob_def alice_cb_def)
  have c: "pendingMessage offer_to_bob 0 \<notin> set (pending ?s ''r'')"
    by (simp add: joinSignalingChannel_def relay_init_def pending_def)
  have d: "keeps_all ''r'' (pendingMessage offer_to_bob 0) ?ops (sendSignal ''r'' offer_to_bob 0 ?s)"
    by (simp add: pendingMessage_def not_expired_def offer_to_bob_def)
  have e: "cb_senderId bob_cb = receiverId offer_to_bob"
    by (simp add: bob_cb_def offer_to_bob_def)
  have f: "count_list (delivered (relay_run ?ops (sendSignal ''r'' offer_to_bob 0 ?s)))
             (bob_cb, pendingMessage offer_to_bob 0) = 0"
    by (simp add: sendSignal_def joinSignalingChannel_def relay_init_def set_add_def accepts_def
        truthy_def offer_to_bob_def alice_cb_def bob_cb_def pendingMessage_def not_expired_def)
  show ?thesis
    using queued_message_delivered_once [OF a b c d e] a b d f
    by (simp add: Let_def list_all_iff)
qed

text \<open>
  Claim C1 as the specification states it fails in both directions. Within the 60
  seconds, the message is lost when the only callback of the room unsubscribes between the
  send and the registration: bob registers and receives nothing. After the 60 seconds,
  \<^verbatim>\<open>joinSignalingChannel\<close> never reads \<^verbatim>\<open>expires\<close>: with a clock reading of 61000 ms in
  between, bob's registration still delivers the message queued at 0 ms.
\<close>

theorem directed_message_counterexample:
  "delivered (relay_run
      [Join ''r'' alice_cb, Send ''r'' offer_to_bob 0, Unsubscribe ''r'' alice_cb,
       Join ''r'' bob_cb] relay_init) = [] \<and>
   delivered (relay_run
      [Send ''r'' offer_to_bob 0, Send ''r'' ping_all 61000, Join ''r'' bob_cb] relay_init) =
     [(bob_cb, pendingMessage offer_to_bob 0)]"
  by (simp add: joinSignalingChannel_def sendSignal_def unsubscribe_def relay_init_def
      set_add_def accepts_def for_peer_def truthy_def not_expired_def pendingMessage_def
      alice_cb_def bob_cb_def offer_to_bob_def ping_all_def)

text \<open>
  Claim C10. When the callback that unsubscribes is the last one of its room, the room's
  set of callbacks and its whole queue of pending messages are deleted. Consequently a
  directed message that was queued (no callback of the room accepts it) is dropped at
  once, whatever its expiry: a receiver that registers right afterwards finds an empty
  queue and nothing is delivered.
\<close>

theorem last_unsubscribe_deletes_queue:
  assumes only: "SIGNALING_CHANNELS s room = Some cs" "removeAll cb cs = []"
  shows "SIGNALING_CHANNELS (unsubscribe room cb s) room = None \<and>
         PENDING_MESSAGES (unsubscribe room cb s) room = None \<and>
         (\<forall>m t rcv. truthy (receiverId m) \<and> filter (accepts m) cs = [] \<longrightarrow>
            pendingMessage m t \<in> set (pending (sendSignal room m t s) room) \<and>
            (let s3 = relay_run [Send room m t, Unsubscribe room cb, Join room rcv] s
             in pending s3 room = [] \<and> delivered s3 = delivered s))"
proof -
  have a: "SIGNALING_CHANNELS (unsubscribe room cb s) room = None"
    and b: "PENDING_MESSAGES (unsubscribe room cb s) room = None"
    using only by (simp_all add: unsubscribe_def)
  have c: "pendingMessage m t \<in> set (pending (sendSignal room m t s) room) \<and>
            (let s3 = relay_run [Send room m t, Unsubscribe room cb, Join room rcv] s
             in pending s3 room = [] \<and> delivered s3 = delivered s)"
    if "truthy (receiverId m)" "filter (accepts m) cs = []" for m t rcv
  proof -
    define s1 where "s1 = sendSignal room m t s"
    have s1: "SIGNALING_CHANNELS s1 room = Some cs" "delivered s1 = delivered s"
      "pendingMessage m t \<in> set (pending s1 room)"
      using only(1) that
      by (simp_all add: s1_def sendSignal_def pending_def)
    define s2 where "s2 = unsubscribe room cb s1"
    have s2: "PENDING_MESSAGES s2 room = None" "delivered s2 = delivered s"
      using s1 only(2) by (simp_all add: s2_def unsubscribe_def)
    have "pending (joinSignalingChannel room rcv s2) room = []"
      "delivered (joinSignalingChannel room rcv s2) = delivered s"
      using s2 by (simp_all add: joinSignalingChannel_def pending_def)
    then show ?thesis
      using s1(3) by (simp add: s1_def s2_def)
  qed
  show ?thesis using a b c by blast
qed

theorem last_unsubscribe_deletes_queue_witness:
  "PENDING_MESSAGES (relay_run [Join ''r'' alice_cb, Send ''r'' offer_to_bob 0] relay_init) ''r''
     = Some [pendingMessage offer_to_bob 0] \<and>
   PENDING_MESSAGES (relay_run [Join ''r'' alice_cb, Send ''r'' offer_to_bob 0,
      Unsubscribe ''r'' alice_cb] relay_init) ''r'' = None \<and>
   delivered (relay_run [Join ''r'' alice_cb, Send ''r'' offer_to_bob 0,
      Unsubscribe ''r'' alice_cb, Join ''r'' bob_cb] relay_init) = []"
proof -
  let ?s = "relay_run [Join ''r'' alice_cb] relay_init"
  let ?s1 = "relay_run [Join ''r'' alice_cb, Send ''r'' offer_to_bob 0] relay_init"
  have one: "SIGNALING_CHANNELS ?s ''r'' = Some [alice_cb]" "removeAll alice_cb [alice_cb] = []"
    "delivered ?s = []"
    by (simp_all add: joinSignalingChannel_def relay_init_def set_add_def)
  have two: "SIGNALING_CHANNELS ?s1 ''r'' = Some [alice_cb]"
    "PENDING_MESSAGES ?s1 ''r'' = Some [pendingMessage offer_to_bob 0]"
    by (simp_all add: joinSignalingChannel_def sendSignal_def relay_init_def set_add_def
        accepts_def truthy_def offer_to_bob_def alice_cb_def not_expired_def pendingMessage_def)
  have m: "truthy (receiverId offer_to_bob) \<and> filter (accepts offer_to_bob) [alice_cb] = []"
    by (simp add: truthy_def accepts_def offer_to_bob_def alice_cb_def)
  from last_unsubscribe_deletes_queue [OF two(1) one(2), of ]
  have gone: "PENDING_MESSAGES (unsubscribe ''r'' alice_cb ?s1) ''r'' = None" by blast
  from last_unsubscribe_deletes_queue [OF one(1) one(2)] m
  have "delivered (relay_run [Send ''r'' offer_to_bob 0, Unsubscribe ''r'' alice_cb,
          Join ''r'' bob_cb] ?s) = delivered ?s"
    unfolding Let_def by blast
  then show ?thesis using two(2) gone one(3) by simp
qed

section \<open>Properties of the media acquisition\<close>

lemma retries_append [simp]: "retries (xs @ ys) = retries xs @ retries ys"
  by (induction xs rule: retries.induct) auto

lemma requests_simps [simp]:
  "requests [] = []"
  "requests (Requested q # es) = q # requests es"
  "requests (Invoked a v r # es) = requests es"
  "requests (xs @ ys) = requests xs @ requests ys"
  by (simp_all add: requests_def)

lemma well_counted_leaf:
  assumes "retries evs = [r]" "length (requests evs) \<le> 2" "r > 3 \<longrightarrow> requests evs = []"
  shows "well_counted r evs"
  using assms by (cases "r > 3") (auto simp: well_counted_def)

lemma well_counted_step:
  assumes "well_counted (Suc r) evs" "retries pre = [r]" "length (requests pre) \<le> 2" "r \<le> 3"
  shows "well_counted r (pre @ evs)"
proof -
  let ?n = "length (retries evs)"
  have "[r..<r + Suc ?n] = r # [Suc r..<r + Suc ?n]"
    by (rule upt_conv_Cons) simp
  moreover have "retries evs = [Suc r..<Suc r + ?n]"
    using assms(1) by (simp add: well_counted_def)
  ultimately have a: "retries (pre @ evs) = [r..<r + length (retries (pre @ evs))]"
    using assms(2) by simp
  have "length (filter (\<lambda>k. k \<le> 3) (retries evs)) \<le> 4 - Suc r"
    and "length (requests evs) \<le> 2 * (4 - Suc r)"
    using assms(1) unfolding well_counted_def by blast+
  then have b: "length (filter (\<lambda>k. k \<le> 3) (retries (pre @ evs))) \<le> 4 - r"
    and c: "length (requests (pre @ evs)) \<le> 2 * (4 - r)"
    using assms(2,3,4) by simp_all
  show ?thesis using a b c unfolding well_counted_def by blast
qed

lemma getMediaStream_refused:
  "\<not> supported \<or> r > 3 \<Longrightarrow>
   getMediaStream supported dev tr a v r =
     (Inl (if \<not> supported then UnsupportedBrowser else MaxRetries), tr @ [Invoked a v r])"
  by (subst getMediaStream.simps) (auto simp: Let_def)

lemma getMediaStream_combined:
  "supported \<Longrightarrow> r \<le> 3 \<Longrightarrow>
   getMediaStream supported dev tr False False r =
     (case dev (length (requests tr)) CombinedBasic of
        Inr stream \<Rightarrow> (Inr stream, tr @ [Invoked False False r, Requested CombinedBasic])
      | Inl basicErr \<Rightarrow>
          (case dev (Suc (length (requests tr))) CombinedDetailed of
             Inr stream \<Rightarrow>
               (Inr stream,
                tr @ [Invoked False False r, Requested CombinedBasic, Requested CombinedDetailed])
           | Inl detailedErr \<Rightarrow>
               getMediaStream supported dev
                 (tr @ [Invoked False False r, Requested CombinedBasic, Requested CombinedDetailed])
                 True False (Suc r)))"
  by (subst getMediaStream.simps) (simp add: Let_def getUserMedia_def split: sum.splits)

lemma getMediaStream_single:
  "supported \<Longrightarrow> r \<le> 3 \<Longrightarrow> a \<or> v \<Longrightarrow>
   getMediaStream supported dev tr a v r =
     (let q = (if a then AudioOnly else VideoOnly);
          tr1 = tr @ [Invoked a v r, Requested q]
      in case dev (length (requests tr)) q of
           Inr stream \<Rightarrow> (Inr stream, tr1)
         | Inl err \<Rightarrow>
             if err = NotAllowedError \<or> err = PermissionDeniedError then (Inl AccessDenied, tr1)
             else if err = NotFoundError \<or> err = DevicesNotFoundError then (Inl NoDeviceFound, tr1)
             else if err = NotReadableError \<or> err = TrackStartError then (Inl DeviceInUse, tr1)
             else if err = OverconstrainedError then
               getMediaStream supported dev (tr1 @ [Requested CombinedLowQuality])
                 True False (Suc r)
             else if a then getMediaStream supported dev tr1 False True (Suc r)
             else (Inl (Rethrown err), tr1))"
  by (subst getMediaStream.simps) (auto simp: Let_def getUserMedia_def split: sum.splits)

lemma getMediaStream_trace:
  "\<exists>evs. snd (getMediaStream supported dev tr a v r) = tr @ evs \<and> well_counted r evs"
proof (induction k \<equiv> "4 - r" arbitrary: r tr a v)
  case 0
  then have "r > 3" by simp
  then show ?case
    by (simp add: getMediaStream_refused well_counted_leaf)
next
  case (Suc k)
  then have r: "r \<le> 3" and k: "k = 4 - Suc r" by simp_all
  have rec: "\<exists>evs. snd (getMediaStream supported dev (tr @ pre) a' v' (Suc r)) = tr @ evs \<and>
               well_counted r evs"
    if "retries pre = [r]" "length (requests pre) \<le> 2" for pre a' v'
  proof -
    from Suc.hyps(1) [OF k, of "tr @ pre" a' v'] obtain evs
      where "snd (getMediaStream supported dev (tr @ pre) a' v' (Suc r)) = tr @ pre @ evs"
        and "well_counted (Suc r) evs" by auto
    then show ?thesis
      using well_counted_step [OF _ that r] by blast
  qed
  show ?case
  proof (cases supported)
    case False
    then show ?thesis by (simp add: getMediaStream_refused well_counted_leaf)
  next
    case True
    show ?thesis
    proof (cases "a \<or> v")
      case False
      then show ?thesis
        using rec [of "[Invoked False False r, Requested CombinedBasic, Requested CombinedDetailed]" True False]
        using r by (simp add: getMediaStream_combined [OF True r] well_counted_leaf split: sum.splits)
    next
      case av: True
      show ?thesis
      proof (cases a)
        case a: True
        show ?thesis
          apply (subst getMediaStream_single [OF True r av])
          using rec [of "[Invoked True v r, Requested AudioOnly, Requested CombinedLowQuality]" True False]
            rec [of "[Invoked True v r, Requested AudioOnly]" False True] r
          by (simp add: a well_counted_leaf Let_def split: sum.splits)
      next
        case a: False
        show ?thesis
          apply (subst getMediaStream_single [OF True r av])
          using rec [of "[Invoked False v r, Requested VideoOnly, Requested CombinedLowQuality]" True False] r
          by (simp add: a well_counted_leaf Let_def split: sum.splits)
      qed
    qed
  qed
qed

text \<open>
  Claim C2 asks that, when every attempt fails as busy or overconstrained, the four tiers
  (combined, combined reduced, audio only, video only) are all tried before the failure
  is raised. On a device that answers every request with \<^verbatim>\<open>NotReadableError\<close> the code
  asks for the two combined tiers and for audio only, and then throws the in-use error:
  video only is never requested.
\<close>

theorem getMediaStream_busy_skips_video_only:
  "getMediaStream True (always_fails NotReadableError) [] False False 0 =
     (Inl DeviceInUse,
      [Invoked False False 0, Requested CombinedBasic, Requested CombinedDetailed,
       Invoked True False 1, Requested AudioOnly])"
  by (simp add: getMediaStream.simps getUserMedia_def always_fails_def)

text \<open>
  The same holds on every device that only ever answers busy or overconstrained, from
  any start that is not video only already. The branch for any other error, a few lines
  further down in the same \<^verbatim>\<open>catch\<close>, does go on from audio only to video only.
\<close>

lemma getMediaStream_never_video_only:
  assumes busy: "busy_or_overconstrained dev"
  shows "a \<or> \<not> v \<Longrightarrow>
         \<exists>evs. snd (getMediaStream supported dev tr a v r) = tr @ evs \<and>
               VideoOnly \<notin> set (requests evs)"
proof (induction k \<equiv> "4 - r" arbitrary: r tr a v)
  case 0
  then have "r > 3" by simp
  then show ?case by (simp add: getMediaStream_refused)
next
  case (Suc k)
  then have r: "r \<le> 3" and k: "k = 4 - Suc r" by simp_all
  have rec: "\<exists>evs. snd (getMediaStream supported dev (tr @ pre) True False (Suc r)) = tr @ evs \<and>
               VideoOnly \<notin> set (requests evs)"
    if "VideoOnly \<notin> set (requests pre)" for pre
  proof -
    from Suc.hyps(1) [OF k, of True False "tr @ pre"] obtain evs
      where "snd (getMediaStream supported dev (tr @ pre) True False (Suc r)) = tr @ pre @ evs"
        and "VideoOnly \<notin> set (requests evs)" by auto
    then show ?thesis using that by (intro exI [of _ "pre @ evs"]) simp
  qed
  have dev: "dev n q = Inl NotReadableError \<or> dev n q = Inl TrackStartError \<or>
            dev n q = Inl OverconstrainedError" for n q
    using busy unfolding busy_or_overconstrained_def by blast
  show ?case
  proof (cases supported)
    case False
    then show ?thesis by (simp add: getMediaStream_refused)
  next
    case True
    show ?thesis
    proof (cases a)
      case a: True
      then have av: "a \<or> v" by simp
      show ?thesis
        apply (subst getMediaStream_single [OF True r av])
        using rec [of "[Invoked True v r, Requested AudioOnly, Requested CombinedLowQuality]"]
          dev [of "length (requests tr)" AudioOnly]
          dev [of "Suc (length (requests tr))" CombinedLowQuality]
        by (auto simp: a Let_def)
    next
      case a: False
      then have v: "\<not> v" using Suc.prems by simp
      show ?thesis
        using rec [of "[Invoked False False r, Requested CombinedBasic, Requested CombinedDetailed]"]
          dev [of "length (requests tr)" CombinedBasic]
          dev [of "Suc (length (requests tr))" CombinedDetailed]
        by (auto simp: a v getMediaStream_combined [OF True r])
    qed
  qed
qed

lemma getMediaStream_other_error_reaches_video_only:
  "getMediaStream True (always_fails OtherError) [] False False 0 =
     (Inl (Rethrown OtherError),
      [Invoked False False 0, Requested CombinedBasic, Requested CombinedDetailed,
       Invoked True False 1, Requested AudioOnly, Invoked False True 2, Requested VideoOnly])"
  by (simp add: getMediaStream.simps getUserMedia_def always_fails_def)

section \<open>Properties of the hook\<close>

lemmas demo_defs =
  joined_def joined_without_mic_def initLocalStream_def acquire_def getUserMedia_def
  working_dev_def no_mic_dev_def demo_hook_def initial_hook_def demo_props_def Let_def
  getAudioTracks_def getVideoTracks_def demo_streams_def demo_tracks_def

lemma filter_id_all: "\<forall>x \<in> set xs. P x \<Longrightarrow> filter P xs = xs"
  by (induction xs) auto

lemma kind_set_enabled [simp]: "kind (set_enabled ts b trk t) = kind (trk t)"
  by (simp add: set_enabled_def)

lemma kind_stop_tracks [simp]: "kind (stop_tracks ts trk t) = kind (trk t)"
  by (simp add: stop_tracks_def)

lemma enabled_stop_tracks [simp]: "enabled (stop_tracks ts trk t) = enabled (trk t)"
  by (simp add: stop_tracks_def)

lemma enabled_set_enabled:
  "enabled (set_enabled ts b trk t) = (if t \<in> set ts then b else enabled (trk t))"
  by (simp add: set_enabled_def)

lemma acquire_success:
  "fst (acquire supported dev n) = Inr stream \<Longrightarrow> \<exists>tr. acquire supported dev n = (Inr stream, tr)"
  by (cases "acquire supported dev n") simp

text \<open>
  Claim C6. Removing an id that no participant carries and that has no peer-connection
  record leaves the whole state of the hook as it is; the function is total, so nothing
  is thrown. The variants that announce the removal to the room first change the relay
  only: the participants list and the peer-connection map stay as they are.
\<close>

theorem removeParticipant_absent_noop:
  assumes "\<forall>p \<in> set (participants s). p_id p \<noteq> pid"
      and "map_of (peerConnections s) pid = None"
  shows "removeParticipant pid s = s \<and>
         participants (removeParticipant_ts props now pid s) = participants s \<and>
         peerConnections (removeParticipant_ts props now pid s) = peerConnections s"
  using assms by (simp add: removeParticipant_def removeParticipant_ts_def filter_id_all)

theorem removeParticipant_absent_noop_witness:
  "map p_id (participants with_peers) = [''me'', ''bob'', ''carol''] \<and>
   map p_id (participants (removeParticipant ''bob'' with_peers)) = [''me'', ''carol''] \<and>
   removeParticipant ''bob'' (removeParticipant ''bob'' with_peers) =
     removeParticipant ''bob'' with_peers \<and>
   participants (removeParticipant_ts demo_props 0 ''nobody'' joined) = participants joined"
proof -
  let ?s = "removeParticipant ''bob'' with_peers"
  have a: "map p_id (participants with_peers) = [''me'', ''bob'', ''carol'']"
    and b: "map p_id (participants ?s) = [''me'', ''carol'']"
    and c: "map fst (peerConnections ?s) = [''carol'']"
    by (simp_all add: with_peers_def onStream_def signalCallback_def createPeer_def
        removeParticipant_def AList.delete_eq demo_defs)
  have d: "\<forall>p \<in> set (participants ?s). p_id p \<noteq> ''bob''"
  proof
    fix p assume "p \<in> set (participants ?s)"
    then have "p_id p \<in> set (map p_id (participants ?s))" by simp
    then show "p_id p \<noteq> ''bob''" unfolding b by auto
  qed
  have "set (map fst (peerConnections ?s)) = {''carol''}"
    unfolding c by simp
  then have "''bob'' \<notin> fst ` set (peerConnections ?s)"
    by simp
  then have e: "map_of (peerConnections ?s) ''bob'' = None"
    by (simp add: map_of_eq_None_iff)
  have f: "\<forall>p \<in> set (participants joined). p_id p \<noteq> ''nobody''"
    and g: "map_of (peerConnections joined) ''nobody'' = None"
    by (simp_all add: demo_defs)
  show ?thesis
    using removeParticipant_absent_noop [OF d e, of demo_props 0]
      removeParticipant_absent_noop [OF f g, of demo_props 0] a b
    by simp
qed

text \<open>
  Claim C8. The handler for a peer's error removes the connection record of that peer
  and the participants with that peer's id, keeps every other record and participant as
  it is and in order, constructs no peer, sends no signal and destroys nothing. The
  close event that the peer emits after its error finds nothing more to remove.
\<close>

theorem onError_removes_only_that_peer:
  "map_of (peerConnections (onError pid s)) =
     (map_of (peerConnections s))(pid := None) \<and>
   participants (onError pid s) = filter (\<lambda>p. p_id p \<noteq> pid) (participants s) \<and>
   created (onError pid s) = created s \<and>
   signaling (onError pid s) = signaling s \<and>
   destroyed (onError pid s) = destroyed s \<and>
   onClose pid (onError pid s) = onError pid s"
  by (simp add: onError_def onClose_def delete_conv' delete_idem)

theorem onError_removes_only_that_peer_witness:
  "map p_id (participants with_peers) = [''me'', ''bob'', ''carol''] \<and>
   map fst (peerConnections with_peers) = [''bob'', ''carol''] \<and>
   map p_id (participants (onError ''bob'' with_peers)) = [''me'', ''carol''] \<and>
   map fst (peerConnections (onError ''bob'' with_peers)) = [''carol''] \<and>
   created (onError ''bob'' with_peers) = [(''bob'', True), (''carol'', True)]"
proof -
  have a: "map p_id (participants with_peers) = [''me'', ''bob'', ''carol'']"
    and b: "map fst (peerConnections with_peers) = [''bob'', ''carol'']"
    and c: "created with_peers = [(''bob'', True), (''carol'', True)]"
    and d: "peerConnections (onError ''bob'' with_peers) =
              AList.delete ''bob'' (peerConnections with_peers)"
    by (simp_all add: with_peers_def onStream_def signalCallback_def createPeer_def onError_def
        demo_defs)
  have e: "map fst (AList.delete ''bob'' (peerConnections with_peers)) = [''carol'']"
    by (simp add: with_peers_def onStream_def signalCallback_def createPeer_def AList.delete_eq
        demo_defs)
  have f: "map p_id (filter (\<lambda>p. p_id p \<noteq> ''bob'') (participants with_peers)) = [''me'', ''carol'']"
    by (simp add: with_peers_def onStream_def signalCallback_def createPeer_def demo_defs)
  show ?thesis
    using onError_removes_only_that_peer [of "''bob''" with_peers] a b c d e f by simp
qed

text \<open>
  Claim C7. With a local stream \<open>cam\<close>, a share is started on the callback of a render
  without a share, the browser handing over the display stream \<open>d\<close>, and then stopped on
  the callback of the render that followed. Afterwards \<^verbatim>\<open>isScreenSharing\<close> is false on
  the hook and on every local participant entry, the stream of every local entry is
  \<open>cam\<close> again, and every track that \<open>d\<close> had when it was handed over is ended; \<open>d\<close> has
  lost none of them on the way, and its audio tracks were disabled and stopped at the
  start already. The list keeps its entries, and no track outside \<open>d\<close> is touched.
\<close>

theorem screen_share_round_trip:
  assumes cam: "localStreamRef s = Some cam"
  shows "let s1 = toggleScreenShare False (Inr d) s; s2 = toggleScreenShare True outcome s1
         in isScreenSharing s1 \<and> screenStream s1 = Some d \<and>
            \<not> isScreenSharing s2 \<and> screenStream s2 = None \<and>
            localStreamRef s2 = Some cam \<and>
            map p_id (participants s2) = map p_id (participants s) \<and>
            map isCurrentUser (participants s2) = map isCurrentUser (participants s) \<and>
            (\<forall>p \<in> set (participants s2).
               isCurrentUser p \<longrightarrow> \<not> p_isScreenSharing p \<and> p_stream p = Some cam) \<and>
            streams s2 = streams s \<and>
            (\<forall>t \<in> set (streams s d). readyState (tracks s2 t) = Ended) \<and>
            (\<forall>t \<in> set (getAudioTracks s d). \<not> enabled (tracks s2 t)) \<and>
            (\<forall>t. t \<notin> set (streams s d) \<longrightarrow> tracks s2 t = tracks s t)"
proof -
  define s1 where "s1 = toggleScreenShare False (Inr d) s"
  define s2 where "s2 = toggleScreenShare True outcome s1"
  have s1: "isScreenSharing s1" "screenStream s1 = Some d" "localStreamRef s1 = Some cam"
    "streams s1 = streams s"
    "participants s1 =
       update_local (\<lambda>p. p\<lparr>p_isScreenSharing := True, p_stream := Some d\<rparr>) (participants s)"
    "tracks s1 = stop_tracks (getAudioTracks s d) (set_enabled (getAudioTracks s d) False (tracks s))"
    using cam by (simp_all add: s1_def toggleScreenShare_def Let_def)
  have s2: "\<not> isScreenSharing s2" "screenStream s2 = None" "localStreamRef s2 = Some cam"
    "streams s2 = streams s"
    "participants s2 =
       update_local (\<lambda>p. p\<lparr>p_isScreenSharing := False, p_stream := Some cam\<rparr>) (participants s1)"
    "tracks s2 = stop_tracks (streams s d) (tracks s1)"
    using s1(1-4) by (simp_all add: s2_def toggleScreenShare_def Let_def)
  have ids: "map p_id (participants s2) = map p_id (participants s)"
    "map isCurrentUser (participants s2) = map isCurrentUser (participants s)"
    by (simp_all add: s2(5) s1(5) update_local_def comp_def if_distrib cong: if_cong)
  have loc: "\<not> p_isScreenSharing p \<and> p_stream p = Some cam"
    if "p \<in> set (participants s2)" "isCurrentUser p" for p
    using that by (auto simp: s2(5) update_local_def split: if_splits)
  have stopped: "readyState (tracks s2 t) = Ended" if "t \<in> set (streams s d)" for t
    using that by (simp add: s2(6) stop_tracks_def)
  have muted: "\<not> enabled (tracks s2 t)" if "t \<in> set (getAudioTracks s d)" for t
    using that by (simp add: s2(6) s1(6) stop_tracks_def set_enabled_def)
  have frame: "tracks s2 t = tracks s t" if "t \<notin> set (streams s d)" for t
    using that by (simp add: s2(6) s1(6) stop_tracks_def set_enabled_def getAudioTracks_def)
  show ?thesis
    using s1(1,2) s2(1-4) ids loc stopped muted frame
    unfolding Let_def s1_def [symmetric] s2_def [symmetric] by blast
qed

theorem screen_share_round_trip_witness:
  "localStreamRef joined = Some 1 \<and> streams joined 2 = [20, 21] \<and>
   readyState (tracks joined 20) = Live \<and> readyState (tracks joined 21) = Live \<and>
   map p_stream (participants (toggleScreenShare False (Inr 2) joined)) = [Some 2] \<and>
   readyState (tracks (toggleScreenShare False (Inr 2) joined) 20) = Live \<and>
   map p_stream (participants
     (toggleScreenShare True (Inl DisplayNotAllowed) (toggleScreenShare False (Inr 2) joined)))
     = [Some 1] \<and>
   readyState (tracks
     (toggleScreenShare True (Inl DisplayNotAllowed) (toggleScreenShare False (Inr 2) joined)) 20)
     = Ended \<and>
   readyState (tracks
     (toggleScreenShare True (Inl DisplayNotAllowed) (toggleScreenShare False (Inr 2) joined)) 21)
     = Ended \<and>
   \<not> isScreenSharing
     (toggleScreenShare True (Inl DisplayNotAllowed) (toggleScreenShare False (Inr 2) joined))"
proof -
  have a: "localStreamRef joined = Some 1"
    and d: "streams joined 2 = [20, 21]"
    and l: "readyState (tracks joined 20) = Live" "readyState (tracks joined 21) = Live"
    and e: "map isCurrentUser (participants joined) = [True]"
    by (simp_all add: demo_defs set_enabled_def)
  have c: "map p_stream (participants (toggleScreenShare False (Inr 2) joined)) = [Some 2]"
    "readyState (tracks (toggleScreenShare False (Inr 2) joined) 20) = Live"
    by (simp_all add: toggleScreenShare_def update_local_def stop_tracks_def set_enabled_def
        demo_defs)
  let ?s2 = "toggleScreenShare True (Inl DisplayNotAllowed) (toggleScreenShare False (Inr 2) joined)"
  from screen_share_round_trip [OF a, of 2 "Inl DisplayNotAllowed"]
  have r: "\<not> isScreenSharing ?s2"
    "map isCurrentUser (participants ?s2) = map isCurrentUser (participants joined)"
    "\<forall>p \<in> set (participants ?s2). isCurrentUser p \<longrightarrow> \<not> p_isScreenSharing p \<and> p_stream p = Some 1"
    "\<forall>t \<in> set (streams joined 2). readyState (tracks ?s2 t) = Ended"
    unfolding Let_def by blast+
  from r(2) e obtain p where p: "participants ?s2 = [p]" "isCurrentUser p"
    by (cases "participants ?s2") auto
  then have "map p_stream (participants ?s2) = [Some 1]" using r(3) by simp
  moreover have "readyState (tracks ?s2 20) = Ended" "readyState (tracks ?s2 21) = Ended"
    using r(4) d by simp_all
  ultimately show ?thesis using a d l c r(1) by simp
qed

text \<open>
  The stop button of the browser does not take this path. The handler \<^verbatim>\<open>onended\<close> calls
  the callback that started the share, which starts again: when the new capture is
  refused the share stays marked as running with its tracks as they are, and when it is
  granted the new stream replaces the old one.
\<close>

lemma onended_starts_again:
  assumes "screenStream s = Some d" "isScreenSharing s"
  shows "isScreenSharing (onended (Inl err) s) \<and> tracks (onended (Inl err) s) = tracks s \<and>
         screenStream (onended (Inl err) s) = Some d \<and>
         screenStream (onended (Inr d') s) = Some d' \<and>
         (\<forall>t. t \<notin> set (getAudioTracks s d') \<longrightarrow> tracks (onended (Inr d') s) t = tracks s t)"
  using assms
  by (simp add: onended_def toggleScreenShare_def Let_def stop_tracks_def set_enabled_def)

subsection \<open>The microphone round trip\<close>

lemma mic_coherent_init:
  assumes "fst (acquire supported dev (Suc (streamInitAttempts s))) = Inr stream"
  shows "mic_coherent (initLocalStream props supported dev s)"
proof -
  obtain tr where "acquire supported dev (Suc (streamInitAttempts s)) = (Inr stream, tr)"
    using acquire_success [OF assms] by blast
  then show ?thesis
    by (auto simp: mic_coherent_def initLocalStream_def Let_def getAudioTracks_def
        getVideoTracks_def enabled_set_enabled filter_empty_conv)
qed

lemma mic_coherent_toggleMic: "mic_coherent s \<Longrightarrow> mic_coherent (toggleMic props c now s)"
  by (auto simp: mic_coherent_def toggleMic_def Let_def getAudioTracks_def update_local_def
      enabled_set_enabled split: option.splits)

lemma mic_coherent_toggleCamera: "mic_coherent s \<Longrightarrow> mic_coherent (toggleCamera props c now s)"
  by (auto simp: mic_coherent_def toggleCamera_def Let_def getAudioTracks_def getVideoTracks_def
      update_local_def enabled_set_enabled split: option.splits)

lemma mic_coherent_toggleScreenShare:
  "mic_coherent s \<Longrightarrow> fresh_display s outcome \<Longrightarrow> mic_coherent (toggleScreenShare c outcome s)"
  by (auto simp: mic_coherent_def toggleScreenShare_def fresh_display_def Let_def
      getAudioTracks_def getVideoTracks_def update_local_def enabled_set_enabled
      split: option.splits sum.splits)

lemma mic_coherent_removeParticipant: "mic_coherent s \<Longrightarrow> mic_coherent (removeParticipant pid s)"
  by (auto simp: mic_coherent_def removeParticipant_def Let_def getAudioTracks_def
      split: option.splits)

lemma mic_coherent_simulate: "mic_coherent s \<Longrightarrow> mic_coherent (simulateOtherParticipants fs s)"
  by (auto simp: mic_coherent_def simulateOtherParticipants_def getAudioTracks_def
      fakeParticipants_def find_Some_iff split: option.splits)

lemma mic_coherent_cleanup: "mic_coherent s \<Longrightarrow> mic_coherent (cleanup s)"
  by (auto simp: mic_coherent_def cleanup_def Let_def getAudioTracks_def split: option.splits)

lemma js_reachable_mic_coherent: "js_reachable s \<Longrightarrow> mic_coherent s"
proof (induction rule: js_reachable.induct)
  case (js_init supported dev s stream props)
  then show ?case by (rule mic_coherent_init)
next
  case (js_mic s props c now)
  then show ?case by (simp add: mic_coherent_toggleMic)
next
  case (js_camera s props c now)
  then show ?case by (simp add: mic_coherent_toggleCamera)
next
  case (js_share s outcome c)
  then show ?case by (simp add: mic_coherent_toggleScreenShare)
next
  case (js_remove s pid)
  then show ?case by (simp add: mic_coherent_removeParticipant)
next
  case (js_simulate s fs)
  then show ?case by (simp add: mic_coherent_simulate)
next
  case (js_cleanup s)
  then show ?case by (simp add: mic_coherent_cleanup)
qed

text \<open>
  Claim C3, as the code has it. In every state of the hook in which the local stream
  exists and has an audio track, two calls of \<^verbatim>\<open>toggleMic\<close>, each on the callback of the
  render that shows the current \<^verbatim>\<open>isMicOn\<close>, do this: the first flips \<^verbatim>\<open>isMicOn\<close> and the
  \<^verbatim>\<open>enabled\<close> flag of every audio track, and the second brings \<^verbatim>\<open>isMicOn\<close>, the flag of
  every audio track and the \<^verbatim>\<open>audioEnabled\<close> flag of every participant back to what they
  were.
\<close>

theorem toggleMic_twice_restores:
  assumes reach: "js_reachable s"
      and ls: "localStreamRef s = Some ls"
      and audio: "getAudioTracks s ls \<noteq> []"
  shows "let s1 = toggleMic props (isMicOn s) t1 s; s2 = toggleMic props (isMicOn s1) t2 s1
         in isMicOn s1 = (\<not> isMicOn s) \<and>
            (\<forall>t \<in> set (getAudioTracks s ls). enabled (tracks s1 t) = (\<not> enabled (tracks s t))) \<and>
            isMicOn s2 = isMicOn s \<and>
            getAudioTracks s2 ls = getAudioTracks s ls \<and>
            (\<forall>t \<in> set (getAudioTracks s ls). enabled (tracks s2 t) = enabled (tracks s t)) \<and>
            map audioEnabled (participants s2) = map audioEnabled (participants s)"
proof -
  have coh: "mic_coherent s" using reach by (rule js_reachable_mic_coherent)
  define s1 where "s1 = toggleMic props (isMicOn s) t1 s"
  define s2 where "s2 = toggleMic props (isMicOn s1) t2 s1"
  have s1: "isMicOn s1 = (\<not> isMicOn s)" "localStreamRef s1 = Some ls"
    "getAudioTracks s1 ls = getAudioTracks s ls"
    "tracks s1 = set_enabled (getAudioTracks s ls) (\<not> isMicOn s) (tracks s)"
    "participants s1 =
       update_local (\<lambda>p. p\<lparr>audioEnabled := \<not> isMicOn s, isMuted := Some (isMicOn s)\<rparr>)
         (participants s)"
    using ls audio by (simp_all add: s1_def toggleMic_def Let_def getAudioTracks_def)
  have s2: "isMicOn s2 = isMicOn s"
    "getAudioTracks s2 ls = getAudioTracks s ls"
    "tracks s2 = set_enabled (getAudioTracks s ls) (isMicOn s) (tracks s1)"
    "participants s2 =
       update_local (\<lambda>p. p\<lparr>audioEnabled := isMicOn s, isMuted := Some (\<not> isMicOn s)\<rparr>)
         (participants s1)"
    using s1(1-3) audio by (simp_all add: s2_def toggleMic_def Let_def getAudioTracks_def)
  have flip: "enabled (tracks s1 t) = (\<not> enabled (tracks s t))"
    if "t \<in> set (getAudioTracks s ls)" for t
    using that coh ls by (simp add: s1(4) enabled_set_enabled mic_coherent_def)
  have restored: "enabled (tracks s2 t) = enabled (tracks s t)"
    if "t \<in> set (getAudioTracks s ls)" for t
    using that coh ls by (simp add: s2(3) enabled_set_enabled mic_coherent_def)
  have "audioEnabled p = isMicOn s" if "p \<in> set (participants s)" "isCurrentUser p" for p
    using that coh by (simp add: mic_coherent_def)
  then have parts: "map audioEnabled (participants s2) = map audioEnabled (participants s)"
    by (simp add: s2(4) s1(5) update_local_def)
  show ?thesis
    using s1(1) flip s2(1,2) restored parts
    unfolding Let_def s1_def [symmetric] s2_def [symmetric] by blast
qed

theorem toggleMic_twice_restores_witness:
  "localStreamRef joined = Some 1 \<and> getAudioTracks joined 1 = [10] \<and>
   isMicOn joined \<and> enabled (tracks joined 10) \<and>
   \<not> isMicOn (toggleMic demo_props True 5 joined) \<and>
   \<not> enabled (tracks (toggleMic demo_props True 5 joined) 10) \<and>
   enabled (tracks (toggleMic demo_props False 9 (toggleMic demo_props True 5 joined)) 10) \<and>
   isMicOn (toggleMic demo_props False 9 (toggleMic demo_props True 5 joined)) \<and>
   map audioEnabled
     (participants (toggleMic demo_props False 9 (toggleMic demo_props True 5 joined))) =
     map audioEnabled (participants joined)"
proof -
  have "fst (acquire True working_dev (Suc (streamInitAttempts demo_hook))) = Inr 1"
    by (simp add: demo_defs)
  then have a: "js_reachable joined"
    unfolding joined_def by (rule js_reachable.js_init)
  have b: "localStreamRef joined = Some 1" and c: "getAudioTracks joined 1 = [10]"
    and d: "enabled (tracks joined 10)" and e: "isMicOn joined"
    by (simp_all add: demo_defs enabled_set_enabled)
  have c': "getAudioTracks joined 1 \<noteq> []" using c by simp
  have f: "isMicOn (toggleMic demo_props True 5 joined) = False"
    using b c by (simp add: toggleMic_def Let_def)
  show ?thesis
    using toggleMic_twice_restores [OF a b c', of demo_props 5 9] b c d e f
    by (simp add: Let_def)
qed

text \<open>
  Claim C3 as the specification states it, for any two calls in succession, fails: two
  calls on one and the same callback, with no render in between, both read the
  \<^verbatim>\<open>isMicOn\<close> that the callback captured. In the session of stream 1 the microphone is
  on; after two such calls it is off, track 10 is disabled and the local entry has
  \<^verbatim>\<open>audioEnabled\<close> false.
\<close>

theorem toggleMic_same_callback_counterexample:
  "js_reachable joined \<and> localStreamRef joined = Some 1 \<and> getAudioTracks joined 1 = [10] \<and>
   isMicOn joined \<and> enabled (tracks joined 10) \<and>
   map audioEnabled (participants joined) = [True] \<and>
   \<not> isMicOn (toggleMic demo_props True 9 (toggleMic demo_props True 5 joined)) \<and>
   \<not> enabled (tracks (toggleMic demo_props True 9 (toggleMic demo_props True 5 joined)) 10) \<and>
   map audioEnabled
     (participants (toggleMic demo_props True 9 (toggleMic demo_props True 5 joined))) = [False]"
proof -
  have "fst (acquire True working_dev (Suc (streamInitAttempts demo_hook))) = Inr 1"
    by (simp add: demo_defs)
  then have a: "js_reachable joined"
    unfolding joined_def by (rule js_reachable.js_init)
  have b: "localStreamRef joined = Some 1" "getAudioTracks joined 1 = [10]"
    "isMicOn joined" "enabled (tracks joined 10)"
    "map audioEnabled (participants joined) = [True]"
    "map isCurrentUser (participants joined) = [True]"
    by (simp_all add: demo_defs enabled_set_enabled)
  define s1 where "s1 = toggleMic demo_props True 5 joined"
  have s1: "localStreamRef s1 = Some 1" "getAudioTracks s1 1 = [10]"
    "map isCurrentUser (participants s1) = [True]"
    using b by (simp_all add: s1_def toggleMic_def Let_def getAudioTracks_def update_local_def
        comp_def if_distrib cong: if_cong)
  define s2 where "s2 = toggleMic demo_props True 9 s1"
  have s2: "\<not> isMicOn s2" "\<not> enabled (tracks s2 10)"
    "participants s2 =
       update_local (\<lambda>p. p\<lparr>audioEnabled := False, isMuted := Some True\<rparr>) (participants s1)"
    using s1(1,2) by (simp_all add: s2_def toggleMic_def Let_def enabled_set_enabled)
  from s1(3) obtain p where p: "participants s1 = [p]" "isCurrentUser p"
    by (cases "participants s1") auto
  have "map audioEnabled (participants s2) = [False]"
    by (simp add: s2(3) p update_local_def)
  then show ?thesis using a b(1-5) s2(1,2) unfolding s2_def s1_def by simp
qed

subsection \<open>The local entry of the participants list\<close>

lemma filter_map_preserved:
  "(\<And>p. isCurrentUser (g p) = isCurrentUser p) \<Longrightarrow>
   filter isCurrentUser (map g ps) = map g (filter isCurrentUser ps)"
  by (induction ps) auto

lemma one_local_map:
  assumes "one_local props ps"
      and "\<And>p. isCurrentUser (g p) = isCurrentUser p"
      and "\<And>p. p_id (g p) = p_id p"
  shows "one_local props (map g ps)"
  using assms by (auto simp: one_local_def filter_map_preserved)

lemma one_local_update_local:
  assumes "one_local props ps"
      and "\<And>p. isCurrentUser (f p) = isCurrentUser p"
      and "\<And>p. p_id (f p) = p_id p"
  shows "one_local props (update_local f ps)"
  unfolding update_local_def using assms by (intro one_local_map) auto

lemma one_local_update_by_id:
  assumes "one_local props ps"
      and "\<And>p. isCurrentUser (f p) = isCurrentUser p"
      and "\<And>p. p_id (f p) = p_id p"
  shows "one_local props (update_by_id sid f ps)"
  unfolding update_by_id_def using assms by (intro one_local_map) auto

lemma one_local_remove:
  assumes "one_local props ps" and "pid \<noteq> userId props"
  shows "one_local props (filter (\<lambda>p. p_id p \<noteq> pid) ps)"
proof -
  have "filter isCurrentUser (filter (\<lambda>p. p_id p \<noteq> pid) ps) = filter isCurrentUser ps"
    using assms by (auto simp: one_local_def intro!: filter_cong)
  then show ?thesis using assms by (simp add: one_local_def)
qed

lemma one_local_simulate:
  assumes "one_local props ps"
  shows "one_local props
           (case find isCurrentUser ps of
              Some currentUser \<Rightarrow> currentUser # fakeParticipants fs
            | None \<Rightarrow> fakeParticipants fs)"
proof (cases "find isCurrentUser ps")
  case None
  then have "filter isCurrentUser ps = []"
    by (simp add: find_None_iff filter_empty_conv)
  then show ?thesis using assms by (simp add: one_local_def)
next
  case (Some cu)
  then have "cu \<in> set ps" "isCurrentUser cu"
    by (auto simp: find_Some_iff)
  then show ?thesis
    using assms Some by (auto simp: one_local_def fakeParticipants_def)
qed

lemma one_local_init:
  assumes "fst (acquire supported dev (Suc (streamInitAttempts s))) = Inr stream"
  shows "one_local props (participants (initLocalStream props supported dev s))"
proof -
  obtain tr where "acquire supported dev (Suc (streamInitAttempts s)) = (Inr stream, tr)"
    using acquire_success [OF assms] by blast
  then show ?thesis
    by (simp add: one_local_def initLocalStream_def Let_def)
qed

lemma one_local_toggleMic:
  "one_local props (participants s) \<Longrightarrow> one_local props (participants (toggleMic props c now s))"
  by (auto simp: toggleMic_def Let_def split: option.splits intro!: one_local_update_local)

lemma one_local_toggleCamera:
  "one_local props (participants s) \<Longrightarrow> one_local props (participants (toggleCamera props c now s))"
  by (auto simp: toggleCamera_def Let_def split: option.splits intro!: one_local_update_local)

lemma one_local_toggleMic_ts:
  "one_local props (participants s) \<Longrightarrow> one_local props (participants (toggleMic_ts c dev s))"
  by (auto simp: toggleMic_ts_def Let_def split: option.splits prod.splits sum.splits list.splits
      intro!: one_local_update_local)

lemma one_local_toggleCamera_ts:
  "one_local props (participants s) \<Longrightarrow> one_local props (participants (toggleCamera_ts c dev s))"
  by (auto simp: toggleCamera_ts_def Let_def split: option.splits prod.splits sum.splits list.splits
      intro!: one_local_update_local)

lemma one_local_toggleScreenShare:
  "one_local props (participants s) \<Longrightarrow> one_local props (participants (toggleScreenShare c outcome s))"
  by (auto simp: toggleScreenShare_def Let_def split: option.splits sum.splits
      intro!: one_local_update_local)

lemma one_local_removeParticipant:
  "one_local props (participants s) \<Longrightarrow> pid \<noteq> userId props \<Longrightarrow>
   one_local props (participants (removeParticipant pid s))"
  by (auto simp: removeParticipant_def Let_def split: option.splits intro!: one_local_remove)

lemma one_local_onStream:
  "one_local props (participants s) \<Longrightarrow> one_local props (participants (onStream pid remoteStream s))"
proof (cases "\<exists>p \<in> set (participants s). p_id p = pid")
  case True
  assume "one_local props (participants s)"
  then have "one_local props
      (map (\<lambda>p. if p_id p = pid
                then p\<lparr>p_stream := Some remoteStream, videoEnabled := True, audioEnabled := True\<rparr>
                else p) (participants s))"
    by (rule one_local_map) auto
  then show ?thesis using True by (simp add: onStream_def Let_def)
next
  case False
  assume "one_local props (participants s)"
  then show ?thesis using False by (simp add: onStream_def Let_def one_local_def)
qed

lemma one_local_handleSignals:
  "one_local props (participants s) \<Longrightarrow>
   one_local props (participants (handleSignals props now message s))"
  by (auto simp: handleSignals_def split: signal_body.splits intro!: one_local_update_by_id)

lemma one_local_signalCallback:
  "one_local props (participants s) \<Longrightarrow>
   one_local props (participants (signalCallback props message s))"
  by (auto simp: signalCallback_def createPeer_def split: signal_body.splits option.splits)

lemma reachable_one_local: "reachable props s \<Longrightarrow> one_local props (participants s)"
proof (induction rule: reachable.induct)
  case (r_init supported dev s stream)
  then show ?case by (rule one_local_init)
next
  case (r_remove_ts s pid now)
  then show ?case
    using one_local_removeParticipant [of props _ pid]
    by (simp add: removeParticipant_ts_def)
next
  case (r_close s pid)
  then show ?case by (simp add: onClose_def one_local_remove)
next
  case (r_error s pid)
  then show ?case by (simp add: onError_def one_local_remove)
next
  case (r_simulate s fs)
  then show ?case by (simp add: simulateOtherParticipants_def one_local_simulate)
next
  case (r_cleanup s)
  then show ?case by (simp add: cleanup_def Let_def split: option.splits)
qed (simp_all add: one_local_toggleMic one_local_toggleCamera one_local_toggleMic_ts
      one_local_toggleCamera_ts one_local_toggleScreenShare one_local_removeParticipant
      one_local_onStream one_local_handleSignals one_local_signalCallback)

text \<open>
  Claim C5, as the code has it. In every state reached after a successful initialisation
  by the operations of the hook, with \<^verbatim>\<open>removeParticipant\<close> and the handlers for a closed
  or failed peer never run for the user's own id, the participants list has exactly one
  entry with \<^verbatim>\<open>isCurrentUser\<close>, and that entry carries the user's id.
\<close>

theorem exactly_one_current_user:
  "reachable props s \<Longrightarrow>
   length (filter isCurrentUser (participants s)) = 1 \<and>
   (\<forall>p \<in> set (participants s). isCurrentUser p \<longrightarrow> p_id p = userId props)"
  using reachable_one_local [of props s] by (simp add: one_local_def)

theorem exactly_one_current_user_witness:
  "map isCurrentUser (participants (onError ''bob'' with_peers)) = [True, False] \<and>
   length (filter isCurrentUser (participants (onError ''bob'' with_peers))) = 1"
proof -
  let ?new = "\<lambda>who. \<lparr>senderId = Some who, receiverId = None, body = NewPeer,
           timestamp = None, expires = None\<rparr>"
  have "fst (acquire True working_dev (Suc (streamInitAttempts demo_hook))) = Inr 1"
    by (simp add: demo_defs)
  then have "reachable demo_props joined"
    unfolding joined_def by (rule reachable.r_init)
  then have "reachable demo_props (signalCallback demo_props (?new ''bob'') joined)"
    by (rule reachable.r_callback)
  then have "reachable demo_props
      (signalCallback demo_props (?new ''carol'') (signalCallback demo_props (?new ''bob'') joined))"
    by (rule reachable.r_callback)
  then have "reachable demo_props with_peers"
    unfolding with_peers_def by (intro reachable.r_stream)
  moreover have "''bob'' \<noteq> userId demo_props" by (simp add: demo_props_def)
  ultimately have r: "reachable demo_props (onError ''bob'' with_peers)"
    by (rule reachable.r_error)
  have "map isCurrentUser (participants (onError ''bob'' with_peers)) = [True, False]"
    by (simp add: with_peers_def onStream_def signalCallback_def createPeer_def onError_def
        demo_defs)
  then show ?thesis
    using exactly_one_current_user [OF r] by simp
qed

text \<open>
  Claim C5 as the specification states it, for any sequence of the exposed operations,
  fails: \<^verbatim>\<open>removeParticipant\<close> filters by id alone, so called with the user's own id it
  removes the local entry and none is left.
\<close>

theorem removing_oneself_counterexample:
  "length (filter isCurrentUser (participants joined)) = 1 \<and>
   length (filter isCurrentUser (participants (removeParticipant (userId demo_props) joined))) = 0"
  by (simp add: removeParticipant_def demo_defs)

subsection \<open>A toggle without its track\<close>

text \<open>
  Claim C4 asks that \<^verbatim>\<open>toggleMic\<close>, on a local stream without an audio track, tries to
  acquire a capture of the microphone and adds its track to the stream, and the same for
  \<^verbatim>\<open>toggleCamera\<close>. The hook of \<^verbatim>\<open>src/hooks/useWebRTC.js\<close> has no such branch: on such
  a stream both leave the state exactly as it is, with no request to the device.
\<close>

theorem toggle_without_track_does_nothing:
  assumes "localStreamRef s = Some ls"
  shows "(getAudioTracks s ls = [] \<longrightarrow> toggleMic props c now s = s) \<and>
         (getVideoTracks s ls = [] \<longrightarrow> toggleCamera props c now s = s)"
  using assms by (simp add: toggleMic_def toggleCamera_def)

theorem toggle_without_track_does_nothing_witness:
  "localStreamRef joined_without_mic = Some 3 \<and>
   getAudioTracks joined_without_mic 3 = [] \<and>
   \<not> isMicOn joined_without_mic \<and>
   toggleMic demo_props False 0 joined_without_mic = joined_without_mic \<and>
   streams (toggleMic demo_props False 0 joined_without_mic) 3 = [12]"
proof -
  have a: "localStreamRef joined_without_mic = Some 3"
    and b: "getAudioTracks joined_without_mic 3 = []"
    and c: "\<not> isMicOn joined_without_mic"
    and d: "streams joined_without_mic 3 = [12]"
    by (simp_all add: demo_defs getMediaStream.simps)
  show ?thesis
    using toggle_without_track_does_nothing [OF a, of demo_props False 0] a b c d by simp
qed

text \<open>
  The TypeScript variant does what the claim says: with the device off and the track
  missing, its first request is for the one device, and the first track of the stream it
  gets is appended to the local stream, whose other tracks stay in place untouched.
\<close>

lemma getMediaStream_ts_audio_first:
  "dev 0 AudioOnly = Inr stream \<Longrightarrow>
   getMediaStream_ts dev [] True False 0 = (Inr stream, [Invoked True False 0, Requested AudioOnly])"
  by (subst getMediaStream_ts.simps) (simp add: getUserMedia_def)

lemma getMediaStream_ts_video_first:
  "dev 0 VideoOnly = Inr stream \<Longrightarrow>
   getMediaStream_ts dev [] False True 0 = (Inr stream, [Invoked False True 0, Requested VideoOnly])"
  by (subst getMediaStream_ts.simps) (simp add: getUserMedia_def)

lemma toggleMic_ts_adds_missing_track:
  assumes "localStreamRef s = Some ls" "getAudioTracks s ls = []"
      and "dev 0 AudioOnly = Inr audioStream" "getAudioTracks s audioStream = t # ts"
  shows "streams (toggleMic_ts False dev s) ls = streams s ls @ [t] \<and>
         tracks (toggleMic_ts False dev s) = tracks s \<and>
         isMicOn (toggleMic_ts False dev s) \<and>
         localStreamRef (toggleMic_ts False dev s) = Some ls \<and>
         requested (toggleMic_ts False dev s) = requested s @ [Invoked True False 0, Requested AudioOnly]"
proof -
  have "t \<in> set (getAudioTracks s audioStream)" using assms(4) by simp
  then have "kind (tracks s t) = AudioKind" by (simp add: getAudioTracks_def)
  then have "t \<notin> set (streams s ls)"
    using assms(2) by (auto simp: getAudioTracks_def filter_empty_conv)
  then show ?thesis
    using assms by (simp add: toggleMic_ts_def getMediaStream_ts_audio_first set_add_def)
qed

lemma toggleCamera_ts_adds_missing_track:
  assumes "localStreamRef s = Some ls" "getVideoTracks s ls = []"
      and "dev 0 VideoOnly = Inr videoStream" "getVideoTracks s videoStream = t # ts"
  shows "streams (toggleCamera_ts False dev s) ls = streams s ls @ [t] \<and>
         tracks (toggleCamera_ts False dev s) = tracks s \<and>
         isCameraOn (toggleCamera_ts False dev s) \<and>
         localStreamRef (toggleCamera_ts False dev s) = Some ls \<and>
         requested (toggleCamera_ts False dev s) = requested s @ [Invoked False True 0, Requested VideoOnly]"
proof -
  have "t \<in> set (getVideoTracks s videoStream)" using assms(4) by simp
  then have "kind (tracks s t) = VideoKind" by (simp add: getVideoTracks_def)
  then have "t \<notin> set (streams s ls)"
    using assms(2) by (auto simp: getVideoTracks_def filter_empty_conv)
  then show ?thesis
    using assms by (simp add: toggleCamera_ts_def getMediaStream_ts_video_first set_add_def)
qed

lemma toggleMic_ts_example:
  "streams (toggleMic_ts False working_dev joined_without_mic) 3 = [12, 13] \<and>
   isMicOn (toggleMic_ts False working_dev joined_without_mic)"
proof -
  have a: "localStreamRef joined_without_mic = Some 3"
    and b: "getAudioTracks joined_without_mic 3 = []"
    and c: "\<not> isMicOn joined_without_mic"
    and d: "streams joined_without_mic 3 = [12]"
    and e: "getAudioTracks joined_without_mic 4 = [13]"
    by (simp_all add: demo_defs getMediaStream.simps)
  have f: "working_dev 0 AudioOnly = Inr 4" by (simp add: working_dev_def)
  show ?thesis
    using toggleMic_ts_adds_missing_track [of joined_without_mic 3 working_dev 4 13 "[]"] a b d e f
    by simp
qed

subsection \<open>The attempts of an initialisation cycle\<close>

lemma attempts_simps [simp]:
  "attempts [] = []"
  "attempts (Requested q # es) = attempts es"
  "attempts (xs @ ys) = attempts xs @ attempts ys"
  by (simp_all add: attempts_def)

lemma getMediaStream_counted:
  "\<exists>evs. snd (getMediaStream supported dev tr a v r) = tr @ evs \<and>
         retries evs = [r..<r + length (retries evs)] \<and>
         length (attempts evs) \<le> 4 - r \<and> length (requests evs) \<le> 2 * (4 - r)"
proof -
  obtain evs where "snd (getMediaStream supported dev tr a v r) = tr @ evs" "well_counted r evs"
    using getMediaStream_trace by blast
  then show ?thesis unfolding well_counted_def attempts_def by blast
qed

lemma acquire_counted:
  "length (attempts (snd (acquire supported dev (Suc k)))) \<le> 4 - k \<and>
   length (requests (snd (acquire supported dev (Suc k)))) \<le> 2 + 2 * (4 - k)"
proof -
  have run: "length (attempts (snd (getMediaStream supported dev tr a v k))) \<le> 4 - k \<and>
             length (requests (snd (getMediaStream supported dev tr a v k))) \<le> 2 + 2 * (4 - k)"
    if "attempts tr = []" "length (requests tr) \<le> 2" for tr a v
  proof -
    obtain evs where "snd (getMediaStream supported dev tr a v k) = tr @ evs"
      "length (attempts evs) \<le> 4 - k" "length (requests evs) \<le> 2 * (4 - k)"
      using getMediaStream_counted by blast
    then show ?thesis using that by simp
  qed
  show ?thesis
  proof (cases supported)
    case False
    then show ?thesis using run [of "[]"] by (simp add: acquire_def)
  next
    case True
    show ?thesis
    proof (cases "dev 0 CombinedBasic")
      case (Inr stream)
      then show ?thesis using True by (simp add: acquire_def getUserMedia_def)
    next
      case basic: (Inl basicErr)
      show ?thesis
      proof (cases "dev 1 CombinedLessStrict")
        case (Inr stream)
        then show ?thesis using True basic by (simp add: acquire_def getUserMedia_def)
      next
        case (Inl exactErr)
        then show ?thesis
          using True basic run [of "[Requested CombinedBasic, Requested CombinedLessStrict]"]
          by (simp add: acquire_def getUserMedia_def)
      qed
    qed
  qed
qed

lemma initLocalStream_requested:
  "requested (initLocalStream props supported dev s) =
     requested s @ snd (acquire supported dev (Suc (streamInitAttempts s)))"
  by (simp add: initLocalStream_def Let_def split: prod.splits sum.splits)

lemma initLocalStream_counter:
  "streamInitAttempts (initLocalStream props supported dev s) = Suc (streamInitAttempts s)"
  by (simp add: initLocalStream_def Let_def split: prod.splits sum.splits)

lemma init_cycle_last:
  assumes "streamInitAttempts s \<ge> 2"
  shows "init_cycle props supported devs s =
           initLocalStream props supported (devs (Suc (streamInitAttempts s))) s"
  using assms by (subst init_cycle.simps) (simp add: Let_def initLocalStream_counter)

lemma init_cycle_from_2:
  assumes "streamInitAttempts s \<ge> 2"
  shows "\<exists>evs. requested (init_cycle props supported devs s) = requested s @ evs \<and>
               length (attempts evs) \<le> 2 \<and> length (requests evs) \<le> 6 \<and>
               streamInitAttempts (init_cycle props supported devs s) = Suc (streamInitAttempts s)"
proof -
  let ?k = "streamInitAttempts s"
  let ?evs = "snd (acquire supported (devs (Suc ?k)) (Suc ?k))"
  have "length (attempts ?evs) \<le> 4 - ?k" "length (requests ?evs) \<le> 2 + 2 * (4 - ?k)"
    using acquire_counted [of supported "devs (Suc ?k)" ?k] by simp_all
  then have "length (attempts ?evs) \<le> 2" "length (requests ?evs) \<le> 6"
    using assms by simp_all
  then show ?thesis
    by (simp add: init_cycle_last [OF assms] initLocalStream_requested initLocalStream_counter)
qed

lemma init_cycle_step:
  "init_cycle props supported devs s =
     initLocalStream props supported (devs (Suc (streamInitAttempts s))) s \<or>
   streamInitAttempts s < 2 \<and>
   init_cycle props supported devs s =
     init_cycle props supported devs
       (initLocalStream props supported (devs (Suc (streamInitAttempts s))) s)"
  by (subst init_cycle.simps, subst (2) init_cycle.simps)
     (auto simp: Let_def initLocalStream_counter)

lemma init_cycle_from_1:
  assumes "streamInitAttempts s = 1"
  shows "\<exists>evs. requested (init_cycle props supported devs s) = requested s @ evs \<and>
               length (attempts evs) \<le> 5 \<and> length (requests evs) \<le> 14 \<and>
               streamInitAttempts (init_cycle props supported devs s) \<le> 3 \<and>
               streamInitAttempts s < streamInitAttempts (init_cycle props supported devs s)"
proof -
  let ?s1 = "initLocalStream props supported (devs 2) s"
  let ?evs = "snd (acquire supported (devs 2) 2)"
  have one: "length (attempts ?evs) \<le> 3" "length (requests ?evs) \<le> 8"
    using acquire_counted [of supported "devs 2" 1] by (simp_all add: numeral_2_eq_2)
  have req: "requested ?s1 = requested s @ ?evs" and cnt: "streamInitAttempts ?s1 = 2"
    using assms by (simp_all add: initLocalStream_requested initLocalStream_counter numeral_2_eq_2)
  from init_cycle_step [of props supported devs s]
  consider "init_cycle props supported devs s = ?s1"
    | "init_cycle props supported devs s = init_cycle props supported devs ?s1"
    using assms by (auto simp: numeral_2_eq_2)
  then show ?thesis
  proof cases
    case 1
    then show ?thesis using one req cnt assms by simp
  next
    case 2
    obtain evs where evs: "requested (init_cycle props supported devs ?s1) = requested ?s1 @ evs"
      "length (attempts evs) \<le> 2" "length (requests evs) \<le> 6"
      "streamInitAttempts (init_cycle props supported devs ?s1) = Suc (streamInitAttempts ?s1)"
      using init_cycle_from_2 [of ?s1 props supported devs] cnt by auto
    show ?thesis
      using 2 evs one req cnt assms by (intro exI [of _ "?evs @ evs"]) simp
  qed
qed

lemma init_cycle_from_0:
  assumes "streamInitAttempts s = 0"
  shows "\<exists>evs. requested (init_cycle props supported devs s) = requested s @ evs \<and>
               length (attempts evs) \<le> 9 \<and> length (requests evs) \<le> 24 \<and>
               streamInitAttempts (init_cycle props supported devs s) \<le> 3 \<and>
               streamInitAttempts s < streamInitAttempts (init_cycle props supported devs s)"
proof -
  let ?s1 = "initLocalStream props supported (devs 1) s"
  let ?evs = "snd (acquire supported (devs 1) 1)"
  have one: "length (attempts ?evs) \<le> 4" "length (requests ?evs) \<le> 10"
    using acquire_counted [of supported "devs 1" 0] by simp_all
  have req: "requested ?s1 = requested s @ ?evs" and cnt: "streamInitAttempts ?s1 = 1"
    using assms by (simp_all add: initLocalStream_requested initLocalStream_counter)
  from init_cycle_step [of props supported devs s]
  consider "init_cycle props supported devs s = ?s1"
    | "init_cycle props supported devs s = init_cycle props supported devs ?s1"
    using assms by auto
  then show ?thesis
  proof cases
    case 1
    then show ?thesis using one req cnt assms by simp
  next
    case 2
    obtain evs where evs: "requested (init_cycle props supported devs ?s1) = requested ?s1 @ evs"
      "length (attempts evs) \<le> 5" "length (requests evs) \<le> 14"
      "streamInitAttempts (init_cycle props supported devs ?s1) \<le> 3"
      "streamInitAttempts ?s1 < streamInitAttempts (init_cycle props supported devs ?s1)"
      using init_cycle_from_1 [of ?s1 props supported devs] cnt by auto
    show ?thesis
      using 2 evs one req cnt assms by (intro exI [of _ "?evs @ evs"]) simp
  qed
qed

lemma init_cycle_counted:
  "\<exists>evs. requested (init_cycle props supported devs s) = requested s @ evs \<and>
         length (attempts evs) \<le> 9 \<and> length (requests evs) \<le> 24 \<and>
         streamInitAttempts s < streamInitAttempts (init_cycle props supported devs s) \<and>
         streamInitAttempts (init_cycle props supported devs s)
           \<le> max 3 (Suc (streamInitAttempts s))"
proof -
  consider "streamInitAttempts s = 0" | "streamInitAttempts s = 1" | "streamInitAttempts s \<ge> 2"
    by linarith
  then show ?thesis
  proof cases
    case 1
    from init_cycle_from_0 [OF this, of props supported devs] show ?thesis by auto
  next
    case 2
    from init_cycle_from_1 [OF this, of props supported devs] show ?thesis by auto
  next
    case 3
    from init_cycle_from_2 [OF this, of props supported devs] show ?thesis by auto
  qed
qed

text \<open>
  Claim C9, as the code has it. \<^verbatim>\<open>getMediaStream\<close> always returns (it is a total
  function: the counter grows by one with every recursive call and a call above 3 does
  not recurse). The invocations of one call carry the counters \<open>r\<close>, \<open>r + 1\<close>, ... in
  this order, at most 4 of them pass the guard, one call makes at most 8 requests to the
  device, and a call entered with a counter above 3 fails with the maximum-retries error
  without a request. An initialisation cycle always ends, runs \<^verbatim>\<open>initLocalStream\<close> at
  least once and, from a fresh hook, at most three times; in all its runs together at
  most 9 invocations of \<^verbatim>\<open>getMediaStream\<close> pass the guard and at most 24 requests are
  made to the device.
\<close>

theorem init_cycle_attempts_bounded:
  "(\<exists>evs. snd (getMediaStream supported dev tr a v r) = tr @ evs \<and>
          retries evs = [r..<r + length (retries evs)] \<and>
          length (attempts evs) \<le> 4 \<and> length (requests evs) \<le> 8 \<and>
          (supported \<and> r > 3 \<longrightarrow>
             fst (getMediaStream supported dev tr a v r) = Inl MaxRetries \<and> requests evs = [])) \<and>
   (\<exists>evs. requested (init_cycle props supported devs s) = requested s @ evs \<and>
          length (attempts evs) \<le> 9 \<and> length (requests evs) \<le> 24 \<and>
          streamInitAttempts s < streamInitAttempts (init_cycle props supported devs s) \<and>
          streamInitAttempts (init_cycle props supported devs s)
            \<le> max 3 (Suc (streamInitAttempts s)))"
proof -
  obtain evs where evs: "snd (getMediaStream supported dev tr a v r) = tr @ evs"
    "retries evs = [r..<r + length (retries evs)]"
    "length (attempts evs) \<le> 4 - r" "length (requests evs) \<le> 2 * (4 - r)"
    using getMediaStream_counted by blast
  have "fst (getMediaStream supported dev tr a v r) = Inl MaxRetries \<and> requests evs = []"
    if "supported" "r > 3"
    using that evs(1) by (auto simp: getMediaStream_refused)
  moreover have "length (attempts evs) \<le> 4" "length (requests evs) \<le> 8"
    using evs(3,4) by simp_all
  ultimately have call: "\<exists>evs. snd (getMediaStream supported dev tr a v r) = tr @ evs \<and>
          retries evs = [r..<r + length (retries evs)] \<and>
          length (attempts evs) \<le> 4 \<and> length (requests evs) \<le> 8 \<and>
          (supported \<and> r > 3 \<longrightarrow>
             fst (getMediaStream supported dev tr a v r) = Inl MaxRetries \<and> requests evs = [])"
    using evs(1,2) by blast
  show ?thesis using call init_cycle_counted by blast
qed

text \<open>
  On the device that answers every request as overconstrained, a call entered with
  counter 4 makes no request; on the device that grants every request the cycle is one
  run with one request.
\<close>

lemma acquire_always_overconstrained:
  "acquire True (always_fails OverconstrainedError) 1 =
     (Inl MaxRetries,
      [Requested CombinedBasic, Requested CombinedLessStrict,
       Invoked False False 0, Requested CombinedBasic, Requested CombinedDetailed,
       Invoked True False 1, Requested AudioOnly, Requested CombinedLowQuality,
       Invoked True False 2, Requested AudioOnly, Requested CombinedLowQuality,
       Invoked True False 3, Requested AudioOnly, Requested CombinedLowQuality,
       Invoked True False 4])"
  "acquire True (always_fails OverconstrainedError) 2 =
     (Inl MaxRetries,
      [Requested CombinedBasic, Requested CombinedLessStrict,
       Invoked True False 1, Requested AudioOnly, Requested CombinedLowQuality,
       Invoked True False 2, Requested AudioOnly, Requested CombinedLowQuality,
       Invoked True False 3, Requested AudioOnly, Requested CombinedLowQuality,
       Invoked True False 4])"
  "acquire True (always_fails OverconstrainedError) 3 =
     (Inl MaxRetries,
      [Requested CombinedBasic, Requested CombinedLessStrict,
       Invoked True True 2, Requested AudioOnly, Requested CombinedLowQuality,
       Invoked True False 3, Requested AudioOnly, Requested CombinedLowQuality,
       Invoked True False 4])"
  by (simp_all add: acquire_def getMediaStream.simps getUserMedia_def always_fails_def)

theorem init_cycle_attempts_bounded_witness:
  "getMediaStream True (always_fails OverconstrainedError) [] True False 4 =
     (Inl MaxRetries, [Invoked True False 4]) \<and>
   requested demo_hook = [] \<and> streamInitAttempts demo_hook = 0 \<and>
   requested (init_cycle demo_props True (\<lambda>n. working_dev) demo_hook) = [Requested CombinedBasic] \<and>
   length (attempts (requested (init_cycle demo_props True (\<lambda>n. working_dev) demo_hook))) \<le> 9 \<and>
   0 < streamInitAttempts (init_cycle demo_props True (\<lambda>n. working_dev) demo_hook) \<and>
   streamInitAttempts (init_cycle demo_props True (\<lambda>n. working_dev) demo_hook) \<le> 3"
proof -
  let ?d = "always_fails OverconstrainedError"
  let ?c = "init_cycle demo_props True (\<lambda>n. working_dev) demo_hook"
  have h: "requested demo_hook = []" "streamInitAttempts demo_hook = 0"
    by (simp_all add: demo_defs)
  from init_cycle_attempts_bounded
    [where supported = True and dev = ?d and tr = "[]" and a = True and v = False and r = 4
       and props = demo_props and devs = "\<lambda>n. working_dev" and s = demo_hook]
  obtain evs evs' where evs: "snd (getMediaStream True ?d [] True False 4) = [] @ evs"
    and "True \<and> (4::nat) > 3 \<longrightarrow>
           fst (getMediaStream True ?d [] True False 4) = Inl MaxRetries \<and> requests evs = []"
    and cyc: "requested ?c = requested demo_hook @ evs'" "length (attempts evs') \<le> 9"
      "streamInitAttempts demo_hook < streamInitAttempts ?c"
      "streamInitAttempts ?c \<le> max 3 (Suc (streamInitAttempts demo_hook))"
    by blast
  then have "fst (getMediaStream True ?d [] True False 4) = Inl MaxRetries"
    by simp
  moreover have "snd (getMediaStream True ?d [] True False 4) = [Invoked True False 4]"
    by (simp add: getMediaStream.simps)
  ultimately have call: "getMediaStream True ?d [] True False 4 = (Inl MaxRetries, [Invoked True False 4])"
    by (simp add: prod_eq_iff)
  have "acquire True working_dev (Suc 0) = (Inr 1, [Requested CombinedBasic])"
    by (simp add: acquire_def getUserMedia_def working_dev_def)
  then have "requested ?c = [Requested CombinedBasic]"
    by (subst init_cycle.simps) (simp add: Let_def h initLocalStream_requested)
  then show ?thesis using call h cyc by simp
qed

text \<open>
  Claim C9 as the specification states it, at most 4 acquisition attempts in an
  initialisation cycle, fails. On the device that answers every request as
  overconstrained the cycle runs three times: 9 invocations of \<^verbatim>\<open>getMediaStream\<close> pass
  the guard and 24 requests are made, and the first call of \<^verbatim>\<open>getMediaStream\<close> alone
  makes 8 requests in its 4 invocations.
\<close>

theorem init_cycle_attempts_counterexample:
  "requested demo_hook = [] \<and>
   length (attempts (requested
     (init_cycle demo_props True (\<lambda>n. always_fails OverconstrainedError) demo_hook))) = 9 \<and>
   length (requests (requested
     (init_cycle demo_props True (\<lambda>n. always_fails OverconstrainedError) demo_hook))) = 24 \<and>
   streamInitAttempts
     (init_cycle demo_props True (\<lambda>n. always_fails OverconstrainedError) demo_hook) = 3 \<and>
   length (attempts
     (snd (getMediaStream True (always_fails OverconstrainedError) [] False False 0))) = 4 \<and>
   length (requests
     (snd (getMediaStream True (always_fails OverconstrainedError) [] False False 0))) = 8"
proof -
  let ?d = "always_fails OverconstrainedError"
  let ?devs = "\<lambda>n::nat. ?d"
  have h: "requested demo_hook = []" "streamInitAttempts demo_hook = 0"
    by (simp_all add: demo_defs)
  define s1 where "s1 = initLocalStream demo_props True ?d demo_hook"
  define s2 where "s2 = initLocalStream demo_props True ?d s1"
  define s3 where "s3 = initLocalStream demo_props True ?d s2"
  have c1: "streamInitAttempts s1 = 1" and r1: "requested s1 = snd (acquire True ?d 1)"
    by (simp_all add: s1_def initLocalStream_counter initLocalStream_requested h)
  have c2: "streamInitAttempts s2 = 2"
    and r2: "requested s2 = snd (acquire True ?d 1) @ snd (acquire True ?d 2)"
    by (simp_all add: s2_def initLocalStream_counter initLocalStream_requested c1 r1
        numeral_2_eq_2)
  have c3: "streamInitAttempts s3 = 3"
    and r3: "requested s3 =
               snd (acquire True ?d 1) @ snd (acquire True ?d 2) @ snd (acquire True ?d 3)"
    by (simp_all add: s3_def initLocalStream_counter initLocalStream_requested c2 r2
        numeral_3_eq_3 numeral_2_eq_2)
  have a1: "isl (fst (acquire True ?d (Suc 0)))" and a2: "isl (fst (acquire True ?d (Suc (Suc 0))))"
    using acquire_always_overconstrained(1,2) by (simp_all add: numeral_2_eq_2)
  have "init_cycle demo_props True ?devs s2 = s3"
    by (subst init_cycle.simps) (simp add: Let_def c2 c3 s3_def [symmetric])
  moreover have "init_cycle demo_props True ?devs s1 = init_cycle demo_props True ?devs s2"
    by (subst init_cycle.simps) (simp add: Let_def c1 c2 s2_def [symmetric] a2)
  moreover have "init_cycle demo_props True ?devs demo_hook = init_cycle demo_props True ?devs s1"
    by (subst init_cycle.simps) (simp add: Let_def h c1 s1_def [symmetric] a1)
  ultimately have cyc: "init_cycle demo_props True ?devs demo_hook = s3" by simp
  have call: "getMediaStream True ?d [] False False 0 =
     (Inl MaxRetries,
      [Invoked False False 0, Requested CombinedBasic, Requested CombinedDetailed,
       Invoked True False 1, Requested AudioOnly, Requested CombinedLowQuality,
       Invoked True False 2, Requested AudioOnly, Requested CombinedLowQuality,
       Invoked True False 3, Requested AudioOnly, Requested CombinedLowQuality,
       Invoked True False 4])"
    by (simp add: getMediaStream.simps getUserMedia_def always_fails_def)
  have n: "length (attempts (snd (acquire True ?d 1))) = 4"
    "length (attempts (snd (acquire True ?d 2))) = 3"
    "length (attempts (snd (acquire True ?d 3))) = 2"
    "length (requests (snd (acquire True ?d 1))) = 10"
    "length (requests (snd (acquire True ?d 2))) = 8"
    "length (requests (snd (acquire True ?d 3))) = 6"
    unfolding acquire_always_overconstrained by (simp_all add: attempts_def)
  have one: "length (attempts (snd (getMediaStream True ?d [] False False 0))) = 4"
    "length (requests (snd (getMediaStream True ?d [] False False 0))) = 8"
    unfolding call by (simp_all add: attempts_def)
  have "length (attempts (requested s3)) = 9" "length (requests (requested s3)) = 24"
    unfolding r3 by (simp_all add: n n(1,4) [unfolded One_nat_def])
  then show ?thesis
    unfolding cyc using h(1) c3 one by simp
qed

text \<open>
  The low-quality request of the overconstrained branch never yields the stream: on a
  device that grants it and refuses everything else as overconstrained, the stream 7 is
  dropped four times and the call fails.
\<close>

lemma low_quality_stream_is_dropped:
  "getMediaStream True
     (\<lambda>n q. if q = CombinedLowQuality then Inr 7 else Inl OverconstrainedError)
     [] True False 0 =
     (Inl MaxRetries,
      [Invoked True False 0, Requested AudioOnly, Requested CombinedLowQuality,
       Invoked True False 1, Requested AudioOnly, Requested CombinedLowQuality,
       Invoked True False 2, Requested AudioOnly, Requested CombinedLowQuality,
       Invoked True False 3, Requested AudioOnly, Requested CombinedLowQuality,
       Invoked True False 4])"
  by (simp add: getMediaStream.simps getUserMedia_def)

end
